theory Spec2Isabelle
  imports Main
begin

section \<open>Python values the ledger handles\<close>

text \<open>
  Python strings are modelled as \<^typ>\<open>string\<close> (code points below 256), Python's unbounded
  integers as \<^typ>\<open>int\<close>. A float (\<^verbatim>\<open>time()\<close>) is never computed with: the ledger only
  stores it and prints it, so it is carried as the text \<^verbatim>\<open>repr\<close> gives.
\<close>

type_synonym pyfloat = string

datatype py_error = IndexError | TypeError | KeyError | BadRequestKeyError

text \<open>\<^verbatim>\<open>str(n)\<close> for an integer: decimal digits, a minus sign for negatives.\<close>

definition digit_char :: "nat \<Rightarrow> char" where
  "digit_char d = ''0123456789'' ! d"

fun str_nat :: "nat \<Rightarrow> string" where
  "str_nat n = (if n < 10 then [digit_char n] else str_nat (n div 10) @ [digit_char (n mod 10)])"

declare str_nat.simps [simp del]

definition str_int :: "int \<Rightarrow> string" where
  "str_int i = (if i < 0 then CHR ''-'' # str_nat (nat (- i)) else str_nat (nat i))"

subsection \<open>\<^verbatim>\<open>json.dumps(obj, sort_keys=True)\<close>\<close>

text \<open>
  The default separators are \<^verbatim>\<open>", "\<close> and \<^verbatim>\<open>": "\<close>; with \<^verbatim>\<open>ensure_ascii\<close> every
  character outside the printable ASCII range is escaped, and so are the quote and the backslash.
\<close>

definition hex_char :: "nat \<Rightarrow> char" where
  "hex_char d = ''0123456789abcdef'' ! d"

definition json_escape_char :: "char \<Rightarrow> string" where
  "json_escape_char c =
     (let n = (of_char c :: nat) in
      if n = 0x22 then [CHR 0x5C, CHR 0x22]
      else if n = 0x5C then [CHR 0x5C, CHR 0x5C]
      else if n = 0x08 then [CHR 0x5C, CHR ''b'']
      else if n = 0x0C then [CHR 0x5C, CHR ''f'']
      else if n = 0x0A then [CHR 0x5C, CHR ''n'']
      else if n = 0x0D then [CHR 0x5C, CHR ''r'']
      else if n = 0x09 then [CHR 0x5C, CHR ''t'']
      else if 0x20 \<le> n \<and> n \<le> 0x7E then [c]
      else [CHR 0x5C, CHR ''u'', CHR ''0'', CHR ''0'', hex_char (n div 16), hex_char (n mod 16)])"

definition json_str :: "string \<Rightarrow> string" where
  "json_str s = CHR 0x22 # concat (map json_escape_char s) @ [CHR 0x22]"

definition json_member :: "string \<Rightarrow> string \<Rightarrow> string" where
  "json_member k v = json_str k @ '': '' @ v"

fun json_join :: "string list \<Rightarrow> string" where
  "json_join [] = []"
| "json_join [x] = x"
| "json_join (x # y # xs) = x @ '', '' @ json_join (y # xs)"

definition json_object :: "string list \<Rightarrow> string" where
  "json_object ms = ''{'' @ json_join ms @ ''}''"

definition json_array :: "string list \<Rightarrow> string" where
  "json_array vs = ''['' @ json_join vs @ '']''"

section \<open>The ledger's data\<close>

text \<open>
  A transaction is the dict \<^verbatim>\<open>add_transaction\<close> builds. The keys \<^verbatim>\<open>transaction_hash\<close>
  and \<^verbatim>\<open>block_number\<close> may be absent from the dict, hence the options.
\<close>

record transaction =
  sender :: string
  recipient :: string
  amount :: int
  details :: string
  tx_timestamp :: string
  transaction_id :: string
  gas_price :: int
  gas_limit :: int
  nonce :: int
  transaction_hash :: "string option"
  block_number :: "int option"

text \<open>A block is the dict \<^verbatim>\<open>create_block\<close> builds; \<open>b_hash\<close> is its key \<^verbatim>\<open>'hash'\<close>.\<close>

record block =
  b_index :: int
  b_timestamp :: pyfloat
  b_transactions :: "transaction list"
  b_proof :: int
  b_previous_hash :: string
  b_hash :: string

text \<open>The two attributes of \<^verbatim>\<open>SimulatedBlockchain\<close>.\<close>

record blockchain =
  chain :: "block list"
  current_transactions :: "transaction list"

text \<open>What a call reads from the clock and the random generator.\<close>

record entropy =
  iso_now :: string
  seed_clock :: string
  seed_random :: int

subsection \<open>Serialisation of the dicts, keys in the order \<^verbatim>\<open>sort_keys\<close> gives\<close>

definition opt_member :: "string \<Rightarrow> 'a option \<Rightarrow> ('a \<Rightarrow> string) \<Rightarrow> string list" where
  "opt_member k v f = (case v of None \<Rightarrow> [] | Some x \<Rightarrow> [json_member k (f x)])"

definition dumps_tx :: "transaction \<Rightarrow> string" where
  "dumps_tx tx = json_object
     ([json_member ''amount'' (str_int (amount tx))]
      @ opt_member ''block_number'' (block_number tx) str_int
      @ [json_member ''details'' (json_str (details tx)),
         json_member ''gas_limit'' (str_int (gas_limit tx)),
         json_member ''gas_price'' (str_int (gas_price tx)),
         json_member ''nonce'' (str_int (nonce tx)),
         json_member ''recipient'' (json_str (recipient tx)),
         json_member ''sender'' (json_str (sender tx)),
         json_member ''timestamp'' (json_str (tx_timestamp tx))]
      @ opt_member ''transaction_hash'' (transaction_hash tx) json_str
      @ [json_member ''transaction_id'' (json_str (transaction_id tx))])"

definition header_members :: "int \<Rightarrow> pyfloat \<Rightarrow> transaction list \<Rightarrow> int \<Rightarrow> string \<Rightarrow> string list" where
  "header_members i ts txs p prev =
     [json_member ''index'' (str_int i),
      json_member ''previous_hash'' (json_str prev),
      json_member ''proof'' (str_int p),
      json_member ''timestamp'' ts,
      json_member ''transactions'' (json_array (map dumps_tx txs))]"

definition dumps_header :: "int \<Rightarrow> pyfloat \<Rightarrow> transaction list \<Rightarrow> int \<Rightarrow> string \<Rightarrow> string" where
  "dumps_header i ts txs p prev = json_object (header_members i ts txs p prev)"

definition dumps_block :: "block \<Rightarrow> string" where
  "dumps_block b = json_object
     (json_member ''hash'' (json_str (b_hash b))
      # header_members (b_index b) (b_timestamp b) (b_transactions b) (b_proof b)
          (b_previous_hash b))"

section \<open>\<^verbatim>\<open>SimulatedBlockchain\<close>\<close>

text \<open>
  \<^verbatim>\<open>hashlib\<close> is not part of the repository. Every function that hashes takes the digest as
  its first argument: \<open>sha s\<close> stands for \<^verbatim>\<open>hashlib.sha256(s.encode()).hexdigest()\<close>.
\<close>

definition hash_transaction :: "(string \<Rightarrow> string) \<Rightarrow> transaction \<Rightarrow> string" where
  "hash_transaction sha tx = ''0x'' @ sha (dumps_tx tx)"

definition generate_block_hash ::
  "(string \<Rightarrow> string) \<Rightarrow> int \<Rightarrow> pyfloat \<Rightarrow> transaction list \<Rightarrow> int \<Rightarrow> string \<Rightarrow> string" where
  "generate_block_hash sha i ts txs p prev = ''0x'' @ sha (dumps_header i ts txs p prev)"

definition generate_transaction_id :: "(string \<Rightarrow> string) \<Rightarrow> entropy \<Rightarrow> string" where
  "generate_transaction_id sha e = ''0x'' @ sha (seed_clock e @ str_int (seed_random e))"

text \<open>The static method \<^verbatim>\<open>hash\<close>: the digest of the whole block dict, its \<^verbatim>\<open>'hash'\<close> key included.\<close>

definition hash :: "(string \<Rightarrow> string) \<Rightarrow> block \<Rightarrow> string" where
  "hash sha b = ''0x'' @ sha (dumps_block b)"

definition get_last_block :: "blockchain \<Rightarrow> block option" where
  "get_last_block bc = (if chain bc = [] then None else Some (last (chain bc)))"

text \<open>
  The loop of \<^verbatim>\<open>create_block\<close> over the block's transactions. The dicts are shared with the
  block, so the block holds the updated ones.
\<close>

definition stamp_tx :: "(string \<Rightarrow> string) \<Rightarrow> int \<Rightarrow> transaction \<Rightarrow> transaction" where
  "stamp_tx sha i tx =
     (if transaction_hash tx = None
      then tx\<lparr>transaction_hash := Some (hash_transaction sha tx), block_number := Some i\<rparr>
      else tx)"

text \<open>
  \<^verbatim>\<open>previous_hash or self.hash(self.chain[-1])\<close>: \<^verbatim>\<open>None\<close> and the empty string are falsy, and
  \<^verbatim>\<open>self.chain[-1]\<close> raises on an empty chain, before anything is changed.
\<close>

definition create_block ::
  "(string \<Rightarrow> string) \<Rightarrow> pyfloat \<Rightarrow> int \<Rightarrow> string option \<Rightarrow> blockchain
     \<Rightarrow> py_error + block \<times> blockchain" where
  "create_block sha now p previous_hash bc =
     (let falsy = (previous_hash = None \<or> previous_hash = Some [])
      in if falsy \<and> chain bc = [] then Inl IndexError
         else
           let i = int (length (chain bc)) + 1;
               prev = (if falsy then hash sha (last (chain bc)) else the previous_hash);
               txs = current_transactions bc;
               h = generate_block_hash sha i now txs p prev;
               blk = \<lparr>b_index = i, b_timestamp = now, b_transactions = map (stamp_tx sha i) txs,
                      b_proof = p, b_previous_hash = prev, b_hash = h\<rparr>
           in Inr (blk, \<lparr>chain = chain bc @ [blk], current_transactions = []\<rparr>))"

text \<open>\<^verbatim>\<open>SimulatedBlockchain()\<close>: both lists empty, then the genesis block.\<close>

definition genesis_previous_hash :: string where
  "genesis_previous_hash = ''0x'' @ replicate 64 CHR ''0''"

definition empty_blockchain :: blockchain where
  "empty_blockchain = \<lparr>chain = [], current_transactions = []\<rparr>"

definition init_blockchain :: "(string \<Rightarrow> string) \<Rightarrow> pyfloat \<Rightarrow> blockchain" where
  "init_blockchain sha now =
     (case create_block sha now 100 (Some genesis_previous_hash) empty_blockchain of
        Inr (blk, bc) \<Rightarrow> bc
      | Inl e \<Rightarrow> empty_blockchain)"

text \<open>
  \<^verbatim>\<open>add_transaction\<close> appends to the pool first; the returned expression
  \<^verbatim>\<open>self.get_last_block()['index'] + 1\<close> raises when there is no block.
\<close>

definition new_transaction ::
  "(string \<Rightarrow> string) \<Rightarrow> entropy \<Rightarrow> blockchain \<Rightarrow> string \<Rightarrow> string \<Rightarrow> int \<Rightarrow> string \<Rightarrow> transaction" where
  "new_transaction sha e bc s r a d =
     (let tx = \<lparr>sender = s, recipient = r, amount = a, details = d, tx_timestamp = iso_now e,
                transaction_id = generate_transaction_id sha e,
                gas_price = 20000000000, gas_limit = 21000,
                nonce = int (length (current_transactions bc)) + 1,
                transaction_hash = None, block_number = None\<rparr>
      in tx\<lparr>transaction_hash := Some (hash_transaction sha tx)\<rparr>)"

definition add_transaction ::
  "(string \<Rightarrow> string) \<Rightarrow> entropy \<Rightarrow> string \<Rightarrow> string \<Rightarrow> int \<Rightarrow> string \<Rightarrow> blockchain
     \<Rightarrow> (py_error + int) \<times> blockchain" where
  "add_transaction sha e s r a d bc =
     (let bc' = bc\<lparr>current_transactions := current_transactions bc @ [new_transaction sha e bc s r a d]\<rparr>
      in (case get_last_block bc' of
            None \<Rightarrow> Inl TypeError
          | Some b \<Rightarrow> Inr (b_index b + 1), bc'))"

subsection \<open>Proof of work\<close>

definition valid_proof :: "(string \<Rightarrow> string) \<Rightarrow> int \<Rightarrow> int \<Rightarrow> bool" where
  "valid_proof sha last_proof p = (take 4 (sha (str_int last_proof @ str_int p)) = ''0000'')"

text \<open>The \<^verbatim>\<open>while\<close> loop, from the current candidate on. \<open>None\<close>: the loop never ends.\<close>

partial_function (option) proof_search :: "(string \<Rightarrow> string) \<Rightarrow> int \<Rightarrow> int \<Rightarrow> int option" where
  "proof_search sha last_proof p =
     (if valid_proof sha last_proof p then Some p else proof_search sha last_proof (p + 1))"

definition proof_of_work :: "(string \<Rightarrow> string) \<Rightarrow> int \<Rightarrow> int option" where
  "proof_of_work sha last_proof = proof_search sha last_proof 0"

text \<open>\<^verbatim>\<open>mine_block\<close>: \<open>None\<close> when the proof search does not return.\<close>

definition mine_block ::
  "(string \<Rightarrow> string) \<Rightarrow> pyfloat \<Rightarrow> blockchain \<Rightarrow> (py_error + block \<times> blockchain) option" where
  "mine_block sha now bc =
     (case get_last_block bc of
        None \<Rightarrow> Some (Inl TypeError)
      | Some last_block \<Rightarrow>
          (case proof_of_work sha (b_proof last_block) of
             None \<Rightarrow> None
           | Some p \<Rightarrow> Some (create_block sha now p (Some (hash sha last_block)) bc)))"

subsection \<open>Balance\<close>

text \<open>The inner and the outer loop of \<^verbatim>\<open>get_balance\<close>, with the running balance.\<close>

fun balance_txs :: "string \<Rightarrow> int \<Rightarrow> transaction list \<Rightarrow> int" where
  "balance_txs a bal [] = bal"
| "balance_txs a bal (tx # txs) =
     (let bal1 = (if recipient tx = a then bal + amount tx else bal);
          bal2 = (if sender tx = a then bal1 - amount tx else bal1)
      in balance_txs a bal2 txs)"

fun balance_blocks :: "string \<Rightarrow> int \<Rightarrow> block list \<Rightarrow> int" where
  "balance_blocks a bal [] = bal"
| "balance_blocks a bal (b # bs) = balance_blocks a (balance_txs a bal (b_transactions b)) bs"

definition get_balance :: "blockchain \<Rightarrow> string \<Rightarrow> int" where
  "get_balance bc a = balance_blocks a 0 (chain bc)"

text \<open>The committed transactions, oldest first.\<close>

definition committed :: "blockchain \<Rightarrow> transaction list" where
  "committed bc = concat (map b_transactions (chain bc))"

definition credits :: "string \<Rightarrow> transaction list \<Rightarrow> int" where
  "credits a txs = sum_list (map amount (filter (\<lambda>tx. recipient tx = a) txs))"

definition debits :: "string \<Rightarrow> transaction list \<Rightarrow> int" where
  "debits a txs = sum_list (map amount (filter (\<lambda>tx. sender tx = a) txs))"

subsection \<open>History\<close>

text \<open>The dict \<^verbatim>\<open>get_user_transactions\<close> builds for each transaction it reports.\<close>

record tx_view =
  v_sender :: string
  v_recipient :: string
  v_amount :: int
  v_details :: string
  v_transaction_hash :: string
  v_block_number :: int
  v_block_index :: int
  v_timestamp :: string
  v_gas_used :: int
  v_gas_price :: int
  v_status :: string
  v_confirmations :: int

definition involves :: "string \<Rightarrow> transaction \<Rightarrow> bool" where
  "involves a tx = (recipient tx = a \<or> sender tx = a)"

definition tx_with_context :: "(string \<Rightarrow> string) \<Rightarrow> nat \<Rightarrow> block \<Rightarrow> transaction \<Rightarrow> tx_view" where
  "tx_with_context sha n b tx =
     \<lparr>v_sender = sender tx, v_recipient = recipient tx, v_amount = amount tx,
      v_details = details tx,
      v_transaction_hash =
        (case transaction_hash tx of Some h \<Rightarrow> h | None \<Rightarrow> hash_transaction sha tx),
      v_block_number = b_index b, v_block_index = b_index b,
      v_timestamp = tx_timestamp tx, v_gas_used = gas_limit tx, v_gas_price = gas_price tx,
      v_status = ''confirmed'', v_confirmations = int n - b_index b + 1\<rparr>"

text \<open>
  The inner loop over one block's transactions, newest first. The flag says that the
  \<^verbatim>\<open>return\<close> inside the loop was taken; the test comes after the append, for every
  transaction, matching or not.
\<close>

fun scan_txs ::
  "(string \<Rightarrow> string) \<Rightarrow> string \<Rightarrow> int \<Rightarrow> nat \<Rightarrow> block \<Rightarrow> tx_view list \<Rightarrow> transaction list
     \<Rightarrow> tx_view list \<times> bool" where
  "scan_txs sha a limit n b acc [] = (acc, False)"
| "scan_txs sha a limit n b acc (tx # txs) =
     (let acc' = (if involves a tx then acc @ [tx_with_context sha n b tx] else acc)
      in if limit \<le> int (length acc') then (acc', True)
         else scan_txs sha a limit n b acc' txs)"

fun scan_blocks ::
  "(string \<Rightarrow> string) \<Rightarrow> string \<Rightarrow> int \<Rightarrow> nat \<Rightarrow> tx_view list \<Rightarrow> block list \<Rightarrow> tx_view list" where
  "scan_blocks sha a limit n acc [] = acc"
| "scan_blocks sha a limit n acc (b # bs) =
     (case scan_txs sha a limit n b acc (rev (b_transactions b)) of
        (acc', True) \<Rightarrow> acc'
      | (acc', False) \<Rightarrow> scan_blocks sha a limit n acc' bs)"

definition get_user_transactions ::
  "(string \<Rightarrow> string) \<Rightarrow> blockchain \<Rightarrow> string \<Rightarrow> int \<Rightarrow> tx_view list" where
  "get_user_transactions sha bc a limit =
     scan_blocks sha a limit (length (chain bc)) [] (rev (chain bc))"

section \<open>\<^verbatim>\<open>BlockchainAdapter\<close> in simulated mode\<close>

text \<open>
  With \<^verbatim>\<open>_brownie_available\<close> false the adapter's state is its \<^verbatim>\<open>SimulatedBlockchain\<close>.
  An exception leaves the adapter with whatever the ledger had changed by then.
\<close>

definition adapter_add_transaction ::
  "(string \<Rightarrow> string) \<Rightarrow> entropy \<Rightarrow> pyfloat \<Rightarrow> string \<Rightarrow> string \<Rightarrow> int \<Rightarrow> string \<Rightarrow> blockchain
     \<Rightarrow> ((py_error + int) \<times> blockchain) option" where
  "adapter_add_transaction sha e now s r a d bc =
     (case add_transaction sha e s r a d bc of
        (Inl err, bc') \<Rightarrow> Some (Inl err, bc')
      | (Inr result, bc') \<Rightarrow>
          (case mine_block sha now bc' of
             None \<Rightarrow> None
           | Some (Inl err) \<Rightarrow> Some (Inl err, bc')
           | Some (Inr (blk, bc'')) \<Rightarrow> Some (Inr result, bc'')))"

text \<open>\<^verbatim>\<open>issue_credits\<close> catches every exception and answers \<^verbatim>\<open>False\<close>.\<close>

definition issue_credits ::
  "(string \<Rightarrow> string) \<Rightarrow> entropy \<Rightarrow> pyfloat \<Rightarrow> string \<Rightarrow> int \<Rightarrow> string \<Rightarrow> blockchain
     \<Rightarrow> (bool \<times> blockchain) option" where
  "issue_credits sha e now r a d bc =
     (case add_transaction sha e ''system'' r a d bc of
        (Inl err, bc') \<Rightarrow> Some (False, bc')
      | (Inr result, bc') \<Rightarrow>
          (case mine_block sha now bc' of
             None \<Rightarrow> None
           | Some (Inl err) \<Rightarrow> Some (False, bc')
           | Some (Inr (blk, bc'')) \<Rightarrow> Some (True, bc'')))"

text \<open>\<^verbatim>\<open>freeze_account\<close> of the adapter: not supported in simulated mode, nothing changes.\<close>

definition adapter_freeze_account :: "string \<Rightarrow> bool \<Rightarrow> blockchain \<Rightarrow> bool \<times> blockchain" where
  "adapter_freeze_account name fr bc = (False, bc)"

section \<open>The routes of the web layer\<close>

text \<open>
  \<^verbatim>\<open>APP_DATA\<close> as far as the routes below use it, together with the adapter the module
  imports (\<open>ledger\<close>).
\<close>

record user =
  role :: string
  frozen :: bool

record issuance =
  producer_name :: string
  i_amount :: int
  i_timestamp :: string
  i_status :: string

record app_data =
  users :: "string \<rightharpoonup> user"
  quotas :: "string \<rightharpoonup> int"
  pending_issuances :: "string \<rightharpoonup> issuance"
  issuance_counter :: int
  ledger :: blockchain

text \<open>
  The session dict. \<^verbatim>\<open>login_required\<close> asks whether the key \<^verbatim>\<open>'logged_in'\<close> is present, whatever
  its value; \<^verbatim>\<open>role_required\<close> reads \<^verbatim>\<open>session.get('role')\<close>. \<open>None\<close> is an absent key.
\<close>

record session =
  logged_in :: "bool option"
  username :: string
  s_role :: "string option"

text \<open>
  The form field \<^verbatim>\<open>amount\<close> as \<^verbatim>\<open>issue_credit\<close> reads it: \<^verbatim>\<open>request.form['amount']\<close> raises
  when the field is missing, and \<^verbatim>\<open>int(...)\<close> raises on a text that is no integer.
\<close>

datatype form_amount = FieldMissing | NotAnInteger | Amount int

text \<open>
  What a route answers: the redirect to the login page, or the message it flashes.
  \<^item> \<open>PermissionDenied\<close>: "You do not have permission to access this page."
  \<^item> \<open>InvalidAmount\<close>: "Invalid amount."
  \<^item> \<open>QuotaExceeded q\<close>: "Purchase failed. Exceeds quota of q."
  \<^item> \<open>InsufficientBalance\<close>: "Purchase failed. Seller has insufficient credits."
  \<^item> \<open>Purchased n\<close>: "Successfully purchased n credits."
  \<^item> \<open>PurchaseFailed\<close>: "Purchase failed: ..." (the adapter raised)
  \<^item> \<open>AccountFrozen\<close>: "Account frozen."
  \<^item> \<open>Submitted n\<close>: "Submitted request to issue n credits."
  \<^item> \<open>FreezeToggled fr\<close>: "Account '...' has been frozen." or "... unfrozen."
  \<^item> \<open>QuotaSet q\<close>: "Consumption quota for ... set to q."
  \<^item> \<open>NoMessage\<close>: a redirect without a message
  \<^item> \<open>Unhandled\<close>: the route raised and nothing caught it
\<close>

datatype response =
    LoginRedirect
  | PermissionDenied
  | InvalidAmount
  | QuotaExceeded int
  | InsufficientBalance
  | Purchased int
  | PurchaseFailed py_error
  | AccountFrozen
  | Submitted int
  | FreezeToggled bool
  | QuotaSet int
  | NoMessage
  | Unhandled py_error

text \<open>The decorators \<^verbatim>\<open>login_required\<close> and \<^verbatim>\<open>role_required\<close>, outermost first.\<close>

definition guarded ::
  "session \<Rightarrow> string list \<Rightarrow> app_data \<Rightarrow> (response \<times> app_data) option
     \<Rightarrow> (response \<times> app_data) option" where
  "guarded sess required_roles app body =
     (if logged_in sess = None then Some (LoginRedirect, app)
      else if s_role sess \<notin> set (map Some required_roles) then Some (PermissionDenied, app)
      else body)"

text \<open>
  \<^verbatim>\<open>buy_credit\<close>: the buyer is the session's user, the seller comes with the form. The
  amount is \<open>None\<close> when \<^verbatim>\<open>int(request.form.get('amount'))\<close> raises, on a missing field
  (\<^verbatim>\<open>int(None)\<close>) as on a text that is no integer; both are caught. The route never reads the
  \<^verbatim>\<open>frozen\<close> flag of either party, and never writes the quota table.
\<close>

definition buy_credit ::
  "(string \<Rightarrow> string) \<Rightarrow> entropy \<Rightarrow> pyfloat \<Rightarrow> session \<Rightarrow> string \<Rightarrow> int option \<Rightarrow> app_data
     \<Rightarrow> (response \<times> app_data) option" where
  "buy_credit sha e now sess seller_name amount_field app =
     guarded sess [''Factory''] app
       (let buyer_name = username sess in
        case amount_field of
          None \<Rightarrow> Some (InvalidAmount, app)
        | Some amt \<Rightarrow>
            (let factory_quota = quotas app buyer_name in
             if factory_quota \<noteq> None \<and> amt > the factory_quota
             then Some (QuotaExceeded (the factory_quota), app)
             else if get_balance (ledger app) seller_name < amt
             then Some (InsufficientBalance, app)
             else
               (case adapter_add_transaction sha e now seller_name buyer_name amt
                       ''Credit purchase'' (ledger app) of
                  None \<Rightarrow> None
                | Some (Inl err, bc') \<Rightarrow> Some (PurchaseFailed err, app\<lparr>ledger := bc'\<rparr>)
                | Some (Inr block_index, bc') \<Rightarrow> Some (Purchased amt, app\<lparr>ledger := bc'\<rparr>))))"

text \<open>
  \<^verbatim>\<open>issue_credit\<close>, the producer's route, does read the flag of the acting user, first of
  all. \<^verbatim>\<open>APP_DATA['users'][username]\<close> raises for a name that is not registered, and a
  missing amount field raises too: neither is caught.
\<close>

definition issue_credit ::
  "string \<Rightarrow> session \<Rightarrow> form_amount \<Rightarrow> app_data \<Rightarrow> (response \<times> app_data) option" where
  "issue_credit now_text sess amount_field app =
     guarded sess [''Producer''] app
       (case users app (username sess) of
          None \<Rightarrow> Some (Unhandled KeyError, app)
        | Some u \<Rightarrow>
            if frozen u then Some (AccountFrozen, app)
            else (case amount_field of
                    FieldMissing \<Rightarrow> Some (Unhandled BadRequestKeyError, app)
                  | NotAnInteger \<Rightarrow> Some (InvalidAmount, app)
                  | Amount amt \<Rightarrow>
                      (let n = issuance_counter app + 1;
                           issuance_id = ''ISSUE-'' @ str_int n
                       in Some (Submitted amt,
                            app\<lparr>issuance_counter := n,
                                pending_issuances := (pending_issuances app)(issuance_id \<mapsto>
                                  \<lparr>producer_name = username sess, i_amount = amt,
                                   i_timestamp = now_text,
                                   i_status = ''Pending Verification''\<rparr>)\<rparr>))))"

text \<open>\<^verbatim>\<open>freeze_account\<close> of the web layer toggles the flag of a known user.\<close>

definition freeze_account :: "session \<Rightarrow> string \<Rightarrow> app_data \<Rightarrow> (response \<times> app_data) option" where
  "freeze_account sess name app =
     guarded sess [''Government''] app
       (case users app name of
          None \<Rightarrow> Some (NoMessage, app)
        | Some u \<Rightarrow>
            Some (FreezeToggled (\<not> frozen u),
                  app\<lparr>users := (users app)(name \<mapsto> u\<lparr>frozen := \<not> frozen u\<rparr>)\<rparr>))"

definition set_factory_quota :: "session \<Rightarrow> string \<Rightarrow> int \<Rightarrow> app_data \<Rightarrow> (response \<times> app_data) option" where
  "set_factory_quota sess factory_name quota app =
     guarded sess [''Government''] app
       (Some (QuotaSet quota, app\<lparr>quotas := (quotas app)(factory_name \<mapsto> quota)\<rparr>))"

section \<open>Reachable states\<close>

text \<open>
  The states of the ledger: a fresh \<^verbatim>\<open>SimulatedBlockchain()\<close>, then any calls of
  \<^verbatim>\<open>add_transaction\<close>, of \<^verbatim>\<open>mine_block\<close> (when it returns a block) and of
  \<^verbatim>\<open>create_block\<close> with the default \<^verbatim>\<open>previous_hash\<close>.
\<close>

inductive reachable :: "(string \<Rightarrow> string) \<Rightarrow> blockchain \<Rightarrow> bool" for sha where
  r_init: "reachable sha (init_blockchain sha now)"
| r_add: "reachable sha bc \<Longrightarrow> reachable sha (snd (add_transaction sha e s r a d bc))"
| r_mine: "reachable sha bc \<Longrightarrow> mine_block sha now bc = Some (Inr (blk, bc')) \<Longrightarrow> reachable sha bc'"
| r_create: "reachable sha bc \<Longrightarrow> create_block sha now p None bc = Inr (blk, bc') \<Longrightarrow> reachable sha bc'"

text \<open>The states of the adapter in simulated mode: only the adapter's own methods are called.\<close>

inductive adapter_reachable :: "(string \<Rightarrow> string) \<Rightarrow> blockchain \<Rightarrow> bool" for sha where
  a_init: "adapter_reachable sha (init_blockchain sha now)"
| a_add: "adapter_reachable sha bc \<Longrightarrow> adapter_add_transaction sha e now s r a d bc = Some (res, bc')
            \<Longrightarrow> adapter_reachable sha bc'"
| a_issue: "adapter_reachable sha bc \<Longrightarrow> issue_credits sha e now r a d bc = Some (ok, bc')
            \<Longrightarrow> adapter_reachable sha bc'"
| a_mine: "adapter_reachable sha bc \<Longrightarrow> mine_block sha now bc = Some (Inr (blk, bc'))
            \<Longrightarrow> adapter_reachable sha bc'"

text \<open>The block \<^verbatim>\<open>create_block\<close> appends to a non-empty chain when it links to the last block.\<close>

definition next_block :: "(string \<Rightarrow> string) \<Rightarrow> pyfloat \<Rightarrow> int \<Rightarrow> blockchain \<Rightarrow> block" where
  "next_block sha now p bc =
     (let i = int (length (chain bc)) + 1;
          prev = hash sha (last (chain bc));
          txs = current_transactions bc
      in \<lparr>b_index = i, b_timestamp = now, b_transactions = map (stamp_tx sha i) txs,
          b_proof = p, b_previous_hash = prev,
          b_hash = generate_block_hash sha i now txs p prev\<rparr>)"

definition indexed :: "block list \<Rightarrow> bool" where
  "indexed bs = (\<forall>i < length bs. b_index (bs ! i) = int i + 1)"

definition linked :: "(string \<Rightarrow> string) \<Rightarrow> block list \<Rightarrow> bool" where
  "linked sha bs = (\<forall>i. Suc i < length bs \<longrightarrow> b_previous_hash (bs ! Suc i) = hash sha (bs ! i))"

definition stamped :: "transaction list \<Rightarrow> bool" where
  "stamped txs = (\<forall>tx \<in> set txs. transaction_hash tx \<noteq> None)"

definition hash_ok :: "(string \<Rightarrow> string) \<Rightarrow> block \<Rightarrow> bool" where
  "hash_ok sha b =
     (b_hash b = generate_block_hash sha (b_index b) (b_timestamp b) (b_transactions b)
                   (b_proof b) (b_previous_hash b))"

definition wf :: "(string \<Rightarrow> string) \<Rightarrow> blockchain \<Rightarrow> bool" where
  "wf sha bc =
     (chain bc \<noteq> [] \<and> indexed (chain bc) \<and> linked sha (chain bc)
      \<and> b_previous_hash (hd (chain bc)) = genesis_previous_hash
      \<and> (\<forall>b \<in> set (chain bc). hash_ok sha b \<and> stamped (b_transactions b))
      \<and> stamped (current_transactions bc))"

text \<open>The committed transactions with their blocks, oldest first.\<close>

definition committed_pairs :: "blockchain \<Rightarrow> (block \<times> transaction) list" where
  "committed_pairs bc = concat (map (\<lambda>b. map (Pair b) (b_transactions b)) (chain bc))"

section \<open>Concrete inputs\<close>

text \<open>
  Two stand-ins for the digest, for evaluating the functions above on concrete inputs.
  \<open>toy_sha\<close> accepts every proof candidate and tells texts of different length apart;
  \<open>late_sha\<close> accepts, after the proof 100, the candidate 3 only.
\<close>

definition toy_sha :: "string \<Rightarrow> string" where
  "toy_sha s = ''0000'' @ str_int (int (length s))"

definition late_sha :: "string \<Rightarrow> string" where
  "late_sha s = (if s = ''1003'' then ''0000c415'' else ''9f86d081'')"

definition e0 :: entropy where
  "e0 = \<lparr>iso_now = ''2025-01-01T00:00:00'', seed_clock = ''1735689600.5'', seed_random = 1234\<rparr>"

text \<open>
  A fresh ledger; the same with one transfer pending; the same after \<^verbatim>\<open>mine_block\<close>.
\<close>

definition bc0 :: blockchain where
  "bc0 = init_blockchain toy_sha ''1700000000.0''"

definition bc1 :: blockchain where
  "bc1 = snd (add_transaction toy_sha e0 ''Alice'' ''Bob'' 5 ''sale'' bc0)"

definition bc2 :: blockchain where
  "bc2 = \<lparr>chain = chain bc1 @ [next_block toy_sha ''1700000001.0'' 0 bc1],
          current_transactions = []\<rparr>"

text \<open>
  The ledger as \<^verbatim>\<open>setup_initial_users\<close> leaves it: the adapter has issued 1000 credits to
  the producer.
\<close>

definition bc_pending_issue :: blockchain where
  "bc_pending_issue =
     snd (add_transaction toy_sha e0 ''system'' ''SomnathProducers'' 1000
            ''Initial credit allocation'' bc0)"

definition bc_issued :: blockchain where
  "bc_issued = \<lparr>chain = chain bc_pending_issue
                    @ [next_block toy_sha ''1700000001.0'' 0 bc_pending_issue],
                current_transactions = []\<rparr>"

definition initial_users :: "string \<rightharpoonup> user" where
  "initial_users =
     [''GovtAdmin'' \<mapsto> \<lparr>role = ''Government'', frozen = False\<rparr>,
      ''SomnathProducers'' \<mapsto> \<lparr>role = ''Producer'', frozen = False\<rparr>,
      ''Ammonia Factory'' \<mapsto> \<lparr>role = ''Factory'', frozen = False\<rparr>]"

definition app0 :: app_data where
  "app0 = \<lparr>users = initial_users, quotas = Map.empty, pending_issuances = Map.empty,
            issuance_counter = 0, ledger = bc_issued\<rparr>"

definition app_frozen :: app_data where
  "app_frozen =
     app0\<lparr>users := initial_users(''Ammonia Factory'' \<mapsto> \<lparr>role = ''Factory'', frozen = True\<rparr>)\<rparr>"

definition app_seller_frozen :: app_data where
  "app_seller_frozen =
     app0\<lparr>users := initial_users(''SomnathProducers'' \<mapsto> \<lparr>role = ''Producer'', frozen = True\<rparr>)\<rparr>"

text \<open>The ledger after the factory has bought 10 credits from the producer.\<close>

definition bc_pending_purchase :: blockchain where
  "bc_pending_purchase =
     snd (add_transaction toy_sha e0 ''SomnathProducers'' ''Ammonia Factory'' 10
            ''Credit purchase'' bc_issued)"

definition bc_purchased :: blockchain where
  "bc_purchased = \<lparr>chain = chain bc_pending_purchase
                       @ [next_block toy_sha ''1700000002.0'' 0 bc_pending_purchase],
                   current_transactions = []\<rparr>"

definition producer_session :: session where
  "producer_session =
     \<lparr>logged_in = Some True, username = ''SomnathProducers'', s_role = Some ''Producer''\<rparr>"

definition app_quota :: app_data where
  "app_quota = app0\<lparr>quotas := [''Ammonia Factory'' \<mapsto> 50]\<rparr>"

definition factory_session :: session where
  "factory_session =
     \<lparr>logged_in = Some True, username = ''Ammonia Factory'', s_role = Some ''Factory''\<rparr>"

definition government_session :: session where
  "government_session =
     \<lparr>logged_in = Some True, username = ''GovtAdmin'', s_role = Some ''Government''\<rparr>"

text \<open>
  The ledger after the adapter has pooled and mined one purchase of the factory from the
  producer; two purchases of 30 credits in a row.
\<close>

definition purchase_ledger :: "pyfloat \<Rightarrow> int \<Rightarrow> blockchain \<Rightarrow> blockchain" where
  "purchase_ledger now amt bc =
     \<lparr>chain = chain bc @
        [next_block toy_sha now 0
           (snd (add_transaction toy_sha e0 ''SomnathProducers'' ''Ammonia Factory'' amt
                   ''Credit purchase'' bc))],
      current_transactions = []\<rparr>"

definition bc_bought_30 :: blockchain where
  "bc_bought_30 = purchase_ledger ''1700000002.0'' 30 bc_issued"

definition bc_bought_60 :: blockchain where
  "bc_bought_60 = purchase_ledger ''1700000003.0'' 30 bc_bought_30"

text \<open>A Python value as a caller sees it, to compare what a call returns with a field.\<close>

datatype pyval = PyInt int | PyStr string | PyBool bool

section \<open>Balance: proofs\<close>

lemma balance_txs_sum: "balance_txs a bal txs = bal + credits a txs - debits a txs"
  by (induction txs arbitrary: bal) (simp_all add: credits_def debits_def Let_def)

lemma balance_blocks_sum:
  "balance_blocks a bal bs =
     bal + credits a (concat (map b_transactions bs)) - debits a (concat (map b_transactions bs))"
proof (induction bs arbitrary: bal)
  case Nil
  show ?case by (simp add: credits_def debits_def)
next
  case (Cons b bs)
  show ?case
    by (simp add: Cons.IH balance_txs_sum credits_def debits_def)
qed

section \<open>Proof of work: proofs\<close>

lemma proof_search_found: "valid_proof sha lp p \<Longrightarrow> proof_search sha lp p = Some p"
  by (subst proof_search.simps) simp

lemma proof_search_skip:
  "\<not> valid_proof sha lp p \<Longrightarrow> proof_search sha lp p = proof_search sha lp (p + 1)"
  by (subst proof_search.simps) simp

lemma proof_search_least:
  "valid_proof sha lp (p + int k) \<Longrightarrow> (\<forall>j < k. \<not> valid_proof sha lp (p + int j))
     \<Longrightarrow> proof_search sha lp p = Some (p + int k)"
proof (induction k arbitrary: p)
  case 0
  then show ?case by (simp add: proof_search_found)
next
  case (Suc k)
  have e: "\<And>j. p + 1 + int j = p + int (Suc j)" by simp
  from Suc.prems(2) have "\<not> valid_proof sha lp (p + int 0)" by blast
  then have "\<not> valid_proof sha lp p" by simp
  then have skip: "proof_search sha lp p = proof_search sha lp (p + 1)"
    by (rule proof_search_skip)
  have v: "valid_proof sha lp (p + 1 + int k)"
    using Suc.prems(1) unfolding e .
  have n: "\<forall>j < k. \<not> valid_proof sha lp (p + 1 + int j)"
    unfolding e using Suc.prems(2) by blast
  have "proof_search sha lp (p + 1) = Some (p + 1 + int k)"
    using v n by (rule Suc.IH)
  with skip show ?case unfolding e by simp
qed


lemma proof_of_work_least:
  assumes "0 \<le> p" and "valid_proof sha lp p"
  shows "proof_of_work sha lp = Some (int (LEAST n. valid_proof sha lp (int n)))"
proof -
  define m where "m = (LEAST n. valid_proof sha lp (int n))"
  have "valid_proof sha lp (int (nat p))" using assms by simp
  then have v: "valid_proof sha lp (int m)"
    unfolding m_def by (rule LeastI [where P = "\<lambda>n. valid_proof sha lp (int n)"])
  have n: "\<forall>j < m. \<not> valid_proof sha lp (int j)"
    unfolding m_def using not_less_Least by blast
  have "proof_search sha lp 0 = Some (0 + int m)"
    by (rule proof_search_least) (use v n in simp_all)
  then show ?thesis unfolding proof_of_work_def m_def by simp
qed

lemma proof_of_work_returns:
  assumes "0 \<le> p" and "valid_proof sha lp p"
  shows "\<exists>q. proof_of_work sha lp = Some q"
  using proof_of_work_least [OF assms] by blast

text \<open>
  C9. If some candidate \<open>p \<ge> 0\<close> (the candidates the search visits are 0, 1, 2, ...) makes
  the digest of \<^verbatim>\<open>f"{last_proof}{p}"\<close> start with four zeros, then \<^verbatim>\<open>proof_of_work\<close> returns,
  and what it returns is the least such candidate.
\<close>

theorem proof_of_work_terminates_with_least:
  assumes "0 \<le> p" and "valid_proof sha last_proof p"
  shows "\<exists>q. proof_of_work sha last_proof = Some q \<and> 0 \<le> q \<and> q \<le> p
           \<and> valid_proof sha last_proof q
           \<and> (\<forall>r. 0 \<le> r \<and> r < q \<longrightarrow> \<not> valid_proof sha last_proof r)"
proof -
  define m where "m = (LEAST n. valid_proof sha last_proof (int n))"
  have p: "valid_proof sha last_proof (int (nat p))" using assms by simp
  have ret: "proof_of_work sha last_proof = Some (int m)"
    unfolding m_def using assms by (rule proof_of_work_least)
  have v: "valid_proof sha last_proof (int m)"
    unfolding m_def using p by (rule LeastI [where P = "\<lambda>n. valid_proof sha last_proof (int n)"])
  have "m \<le> nat p"
    unfolding m_def using p by (rule Least_le [where P = "\<lambda>n. valid_proof sha last_proof (int n)"])
  then have le: "int m \<le> p" using assms(1) by linarith
  have least: "\<forall>r. 0 \<le> r \<and> r < int m \<longrightarrow> \<not> valid_proof sha last_proof r"
  proof (intro allI impI)
    fix r assume r: "0 \<le> r \<and> r < int m"
    then have "nat r < m" by linarith
    then have "\<not> valid_proof sha last_proof (int (nat r))"
      unfolding m_def by (rule not_less_Least)
    with r show "\<not> valid_proof sha last_proof r" by simp
  qed
  have "0 \<le> int m" by simp
  with ret v le least show ?thesis by blast
qed

lemma str_nat_numeral [simp]:
  "str_nat (numeral k) =
     (if numeral k < (10::nat) then [digit_char (numeral k)]
      else str_nat (numeral k div 10) @ [digit_char (numeral k mod 10)])"
  by (rule str_nat.simps)

lemma str_nat_0 [simp]: "str_nat 0 = ''0''"
  by (simp add: str_nat.simps digit_char_def)

lemma str_nat_1 [simp]: "str_nat (Suc 0) = ''1''"
  by (simp add: str_nat.simps digit_char_def)

theorem proof_of_work_witness:
  "\<exists>q. proof_of_work late_sha 100 = Some q \<and> 0 \<le> q \<and> q \<le> 3
           \<and> valid_proof late_sha 100 q
           \<and> (\<forall>r. 0 \<le> r \<and> r < q \<longrightarrow> \<not> valid_proof late_sha 100 r)"
  using proof_of_work_terminates_with_least [of 3 late_sha 100]
  by (simp add: valid_proof_def late_sha_def str_int_def digit_char_def)

section \<open>Block assembly and the invariants of reachable states: proofs\<close>

lemma hash_not_empty: "hash sha b \<noteq> []"
  by (simp add: hash_def)

lemma create_block_default:
  "chain bc \<noteq> [] \<Longrightarrow>
     create_block sha now p None bc =
       Inr (next_block sha now p bc,
            \<lparr>chain = chain bc @ [next_block sha now p bc], current_transactions = []\<rparr>)"
  by (simp add: create_block_def next_block_def Let_def)

lemma create_block_linked:
  "chain bc \<noteq> [] \<Longrightarrow>
     create_block sha now p (Some (hash sha (last (chain bc)))) bc =
       Inr (next_block sha now p bc,
            \<lparr>chain = chain bc @ [next_block sha now p bc], current_transactions = []\<rparr>)"
  by (simp add: create_block_def next_block_def Let_def hash_not_empty)

lemma mine_block_found:
  "chain bc \<noteq> [] \<Longrightarrow> proof_of_work sha (b_proof (last (chain bc))) = Some p \<Longrightarrow>
     mine_block sha now bc =
       Some (Inr (next_block sha now p bc,
                  \<lparr>chain = chain bc @ [next_block sha now p bc], current_transactions = []\<rparr>))"
  by (simp add: mine_block_def get_last_block_def create_block_linked)

lemma mine_block_result:
  assumes "chain bc \<noteq> []" and "mine_block sha now bc = Some x"
  shows "\<exists>p. proof_of_work sha (b_proof (last (chain bc))) = Some p
           \<and> x = Inr (next_block sha now p bc,
                      \<lparr>chain = chain bc @ [next_block sha now p bc], current_transactions = []\<rparr>)"
proof (cases "proof_of_work sha (b_proof (last (chain bc)))")
  case None
  with assms show ?thesis by (simp add: mine_block_def get_last_block_def)
next
  case (Some p)
  with assms mine_block_found [OF assms(1) Some, of now] show ?thesis by simp
qed

lemma stamp_tx_stamped: "stamped txs \<Longrightarrow> map (stamp_tx sha i) txs = txs"
  by (induction txs) (auto simp: stamped_def stamp_tx_def)

lemma next_block_fields:
  "b_index (next_block sha now p bc) = int (length (chain bc)) + 1"
  "b_timestamp (next_block sha now p bc) = now"
  "b_proof (next_block sha now p bc) = p"
  "b_previous_hash (next_block sha now p bc) = hash sha (last (chain bc))"
  "b_transactions (next_block sha now p bc) =
     map (stamp_tx sha (int (length (chain bc)) + 1)) (current_transactions bc)"
  "b_hash (next_block sha now p bc) =
     generate_block_hash sha (int (length (chain bc)) + 1) now (current_transactions bc) p
       (hash sha (last (chain bc)))"
  by (simp_all add: next_block_def Let_def)

lemma init_blockchain_eq:
  "init_blockchain sha now =
     \<lparr>chain = [\<lparr>b_index = 1, b_timestamp = now, b_transactions = [], b_proof = 100,
                 b_previous_hash = genesis_previous_hash,
                 b_hash = generate_block_hash sha 1 now [] 100 genesis_previous_hash\<rparr>],
      current_transactions = []\<rparr>"
  by (simp add: init_blockchain_def create_block_def empty_blockchain_def Let_def
      genesis_previous_hash_def)

lemma wf_init: "wf sha (init_blockchain sha now)"
  by (simp add: init_blockchain_eq wf_def indexed_def linked_def stamped_def hash_ok_def)

lemma add_transaction_state:
  "snd (add_transaction sha e s r a d bc) =
     bc\<lparr>current_transactions := current_transactions bc @ [new_transaction sha e bc s r a d]\<rparr>"
  by (simp add: add_transaction_def Let_def)

lemma new_transaction_stamped:
  "transaction_hash (new_transaction sha e bc s r a d) =
     Some (hash_transaction sha
       \<lparr>sender = s, recipient = r, amount = a, details = d, tx_timestamp = iso_now e,
        transaction_id = generate_transaction_id sha e,
        gas_price = 20000000000, gas_limit = 21000,
        nonce = int (length (current_transactions bc)) + 1,
        transaction_hash = None, block_number = None\<rparr>)"
  by (simp add: new_transaction_def Let_def)

lemma wf_add: "wf sha bc \<Longrightarrow> wf sha (snd (add_transaction sha e s r a d bc))"
  by (simp add: add_transaction_state wf_def stamped_def new_transaction_stamped)

lemma indexed_snoc:
  "indexed bs \<Longrightarrow> b_index b = int (length bs) + 1 \<Longrightarrow> indexed (bs @ [b])"
  by (auto simp: indexed_def nth_append less_Suc_eq)

lemma linked_snoc:
  assumes "linked sha bs" and "bs \<noteq> []" and "b_previous_hash b = hash sha (last bs)"
  shows "linked sha (bs @ [b])"
  unfolding linked_def
proof (intro allI impI)
  fix i assume i: "Suc i < length (bs @ [b])"
  show "b_previous_hash ((bs @ [b]) ! Suc i) = hash sha ((bs @ [b]) ! i)"
  proof (cases "Suc i < length bs")
    case True
    with assms(1) show ?thesis by (simp add: linked_def nth_append)
  next
    case False
    with i have e: "length bs = Suc i" by simp
    then have "last bs = bs ! i" using assms(2) by (simp add: last_conv_nth)
    with e assms(3) show ?thesis by (simp add: nth_append)
  qed
qed

lemma wf_next:
  assumes "wf sha bc"
  shows "wf sha \<lparr>chain = chain bc @ [next_block sha now p bc], current_transactions = []\<rparr>"
proof -
  let ?b = "next_block sha now p bc"
  from assms have ne: "chain bc \<noteq> []" and ix: "indexed (chain bc)" and lk: "linked sha (chain bc)"
    and gen: "b_previous_hash (hd (chain bc)) = genesis_previous_hash"
    and blocks: "\<forall>b \<in> set (chain bc). hash_ok sha b \<and> stamped (b_transactions b)"
    and pool: "stamped (current_transactions bc)"
    by (simp_all add: wf_def)
  have txs: "b_transactions ?b = current_transactions bc"
    by (simp add: next_block_fields stamp_tx_stamped [OF pool])
  have 1: "indexed (chain bc @ [?b])"
    using ix by (rule indexed_snoc) (simp add: next_block_fields)
  have 2: "linked sha (chain bc @ [?b])"
    using lk ne by (rule linked_snoc) (simp add: next_block_fields)
  have 3: "hash_ok sha ?b"
    unfolding hash_ok_def txs by (simp add: next_block_fields)
  have 4: "stamped (b_transactions ?b)" using pool by (simp add: txs)
  show ?thesis
    using ne gen blocks 1 2 3 4 by (simp add: wf_def stamped_def)
qed

lemma reachable_wf: "reachable sha bc \<Longrightarrow> wf sha bc"
proof (induction rule: reachable.induct)
  case (r_init now)
  show ?case by (rule wf_init)
next
  case (r_add bc e s r a d)
  then show ?case by (simp add: wf_add)
next
  case (r_mine bc now blk bc')
  then have ne: "chain bc \<noteq> []" by (simp add: wf_def)
  from mine_block_result [OF ne r_mine.hyps(2)] r_mine.IH show ?case
    by (auto simp: wf_next)
next
  case (r_create bc now p blk bc')
  then have ne: "chain bc \<noteq> []" by (simp add: wf_def)
  from r_create.hyps(2) r_create.IH show ?case
    by (auto simp: create_block_default [OF ne] wf_next)
qed

section \<open>Concrete evaluation, block assembly and chain linkage\<close>

lemmas json_defs = dumps_header_def dumps_block_def dumps_tx_def header_members_def json_object_def
  json_array_def json_member_def json_str_def json_escape_char_def opt_member_def
  str_int_def digit_char_def

lemma toy_valid: "valid_proof toy_sha lp p"
  by (simp add: valid_proof_def toy_sha_def)

lemma toy_proof_of_work: "proof_of_work toy_sha lp = Some 0"
  by (simp add: proof_of_work_def proof_search_found toy_valid)

lemma bc0_eq:
  "bc0 = \<lparr>chain = [\<lparr>b_index = 1, b_timestamp = ''1700000000.0'', b_transactions = [],
                      b_proof = 100, b_previous_hash = genesis_previous_hash,
                      b_hash = ''0x0000160''\<rparr>],
           current_transactions = []\<rparr>"
  by (simp add: bc0_def init_blockchain_eq generate_block_hash_def toy_sha_def json_defs
      genesis_previous_hash_def)


lemma last_index:
  assumes "indexed bs" and "bs \<noteq> []"
  shows "b_index (last bs) = int (length bs)"
proof -
  from assms(2) obtain xs x where bs: "bs = xs @ [x]" by (cases bs rule: rev_cases) auto
  have "length xs < length bs" by (simp add: bs)
  with assms(1) have "b_index (bs ! length xs) = int (length xs) + 1"
    unfolding indexed_def by blast
  then show ?thesis by (simp add: bs)
qed

lemma add_transaction_chain: "chain (snd (add_transaction sha e s r a d bc)) = chain bc"
  by (simp add: add_transaction_state)

lemma add_transaction_pool:
  "current_transactions (snd (add_transaction sha e s r a d bc)) =
     current_transactions bc @ [new_transaction sha e bc s r a d]"
  by (simp add: add_transaction_state)

lemma add_transaction_result:
  "chain bc \<noteq> [] \<Longrightarrow>
     fst (add_transaction sha e s r a d bc) = Inr (b_index (last (chain bc)) + 1)"
  by (simp add: add_transaction_def Let_def get_last_block_def)

text \<open>
  C4, as the code has it. From every reachable state, and provided the proof search has a
  candidate to find, \<^verbatim>\<open>mine_block\<close> returns and appends exactly one block: its transactions
  are the pending pool, in order; its index is the last block's index plus one; the pool is
  empty afterwards. Its \<^verbatim>\<open>previous_hash\<close> is what the static method \<^verbatim>\<open>hash\<close> gives for the last
  block, the digest of that block's whole dict; it equals the \<^verbatim>\<open>'hash'\<close> stored on the last
  block only where the digest collides on the two texts. \<^verbatim>\<open>create_block\<close> with the default
  \<^verbatim>\<open>previous_hash\<close> does the same, for any proof \<open>p\<close>.
\<close>

theorem mine_block_appends_pool:
  assumes "reachable sha bc" and "0 \<le> q" and "valid_proof sha (b_proof (last (chain bc))) q"
  shows "(\<exists>blk bc'.
            mine_block sha now bc = Some (Inr (blk, bc'))
            \<and> chain bc' = chain bc @ [blk]
            \<and> b_transactions blk = current_transactions bc
            \<and> b_index blk = b_index (last (chain bc)) + 1
            \<and> b_previous_hash blk = ''0x'' @ sha (dumps_block (last (chain bc)))
            \<and> b_hash blk = ''0x'' @ sha (dumps_header (b_index blk) (b_timestamp blk)
                                        (b_transactions blk) (b_proof blk) (b_previous_hash blk))
            \<and> current_transactions bc' = [])
         \<and> (\<exists>blk bc'.
            create_block sha now p None bc = Inr (blk, bc')
            \<and> chain bc' = chain bc @ [blk]
            \<and> b_transactions blk = current_transactions bc
            \<and> b_index blk = b_index (last (chain bc)) + 1
            \<and> b_proof blk = p
            \<and> b_previous_hash blk = ''0x'' @ sha (dumps_block (last (chain bc)))
            \<and> b_hash blk = ''0x'' @ sha (dumps_header (b_index blk) (b_timestamp blk)
                                        (b_transactions blk) (b_proof blk) (b_previous_hash blk))
            \<and> current_transactions bc' = [])
         \<and> (''0x'' @ sha (dumps_block (last (chain bc))) = b_hash (last (chain bc)))
             = (sha (dumps_block (last (chain bc))) =
                sha (dumps_header (b_index (last (chain bc))) (b_timestamp (last (chain bc)))
                       (b_transactions (last (chain bc))) (b_proof (last (chain bc)))
                       (b_previous_hash (last (chain bc)))))"
proof -
  from assms(1) have wf: "wf sha bc" by (rule reachable_wf)
  then have ne: "chain bc \<noteq> []" and ix: "indexed (chain bc)"
    and pool: "stamped (current_transactions bc)"
    by (simp_all add: wf_def)
  from proof_of_work_returns [OF assms(2,3)]
  obtain p' where p': "proof_of_work sha (b_proof (last (chain bc))) = Some p'" by blast
  have txs: "b_transactions (next_block sha now r bc) = current_transactions bc" for r
    by (simp add: next_block_fields stamp_tx_stamped [OF pool])
  have fields: "b_transactions (next_block sha now r bc) = current_transactions bc
                \<and> b_index (next_block sha now r bc) = b_index (last (chain bc)) + 1
                \<and> b_proof (next_block sha now r bc) = r
                \<and> b_previous_hash (next_block sha now r bc)
                    = ''0x'' @ sha (dumps_block (last (chain bc)))
                \<and> b_hash (next_block sha now r bc)
                    = ''0x'' @ sha (dumps_header (b_index (next_block sha now r bc))
                         (b_timestamp (next_block sha now r bc))
                         (b_transactions (next_block sha now r bc))
                         (b_proof (next_block sha now r bc))
                         (b_previous_hash (next_block sha now r bc)))" for r
    unfolding txs
    by (simp add: next_block_fields last_index [OF ix ne] hash_def generate_block_hash_def)
  have "mine_block sha now bc =
          Some (Inr (next_block sha now p' bc,
                     \<lparr>chain = chain bc @ [next_block sha now p' bc], current_transactions = []\<rparr>))"
    using ne p' by (rule mine_block_found)
  with fields [of p'] have mined:
    "\<exists>blk bc'.
        mine_block sha now bc = Some (Inr (blk, bc'))
        \<and> chain bc' = chain bc @ [blk]
        \<and> b_transactions blk = current_transactions bc
        \<and> b_index blk = b_index (last (chain bc)) + 1
        \<and> b_previous_hash blk = ''0x'' @ sha (dumps_block (last (chain bc)))
        \<and> b_hash blk = ''0x'' @ sha (dumps_header (b_index blk) (b_timestamp blk)
                                    (b_transactions blk) (b_proof blk) (b_previous_hash blk))
        \<and> current_transactions bc' = []"
    by simp
  have "create_block sha now p None bc =
          Inr (next_block sha now p bc,
               \<lparr>chain = chain bc @ [next_block sha now p bc], current_transactions = []\<rparr>)"
    using ne by (rule create_block_default)
  with fields [of p] have created:
    "\<exists>blk bc'.
        create_block sha now p None bc = Inr (blk, bc')
        \<and> chain bc' = chain bc @ [blk]
        \<and> b_transactions blk = current_transactions bc
        \<and> b_index blk = b_index (last (chain bc)) + 1
        \<and> b_proof blk = p
        \<and> b_previous_hash blk = ''0x'' @ sha (dumps_block (last (chain bc)))
        \<and> b_hash blk = ''0x'' @ sha (dumps_header (b_index blk) (b_timestamp blk)
                                    (b_transactions blk) (b_proof blk) (b_previous_hash blk))
        \<and> current_transactions bc' = []"
    by simp
  from ne have "last (chain bc) \<in> set (chain bc)" by simp
  with wf have "hash_ok sha (last (chain bc))" by (simp add: wf_def)
  then have stored:
    "(''0x'' @ sha (dumps_block (last (chain bc))) = b_hash (last (chain bc)))
       = (sha (dumps_block (last (chain bc))) =
          sha (dumps_header (b_index (last (chain bc))) (b_timestamp (last (chain bc)))
                 (b_transactions (last (chain bc))) (b_proof (last (chain bc)))
                 (b_previous_hash (last (chain bc)))))"
    by (simp add: hash_ok_def generate_block_hash_def)
  from mined created stored show ?thesis by (intro conjI)
qed

lemma reachable_bc0: "reachable toy_sha bc0"
  unfolding bc0_def by (rule r_init)

lemma reachable_bc1: "reachable toy_sha bc1"
  unfolding bc1_def using reachable_bc0 by (rule r_add)

lemma chain_bc1: "chain bc1 = chain bc0"
  by (simp add: bc1_def add_transaction_chain)

lemma chain_bc0_not_empty: "chain bc0 \<noteq> []"
  by (simp add: bc0_eq)

lemma mine_bc1:
  "mine_block toy_sha ''1700000001.0'' bc1 =
     Some (Inr (next_block toy_sha ''1700000001.0'' 0 bc1, bc2))"
  unfolding bc2_def
  by (rule mine_block_found) (simp_all add: chain_bc1 chain_bc0_not_empty toy_proof_of_work)

lemma reachable_bc2: "reachable toy_sha bc2"
  using reachable_bc1 mine_bc1 by (rule r_mine)

theorem mine_block_appends_pool_witness:
  "(\<exists>blk bc'.
      mine_block toy_sha ''1700000001.0'' bc1 = Some (Inr (blk, bc'))
      \<and> chain bc' = chain bc1 @ [blk]
      \<and> b_transactions blk = current_transactions bc1
      \<and> b_index blk = b_index (last (chain bc1)) + 1
      \<and> b_previous_hash blk = ''0x'' @ toy_sha (dumps_block (last (chain bc1)))
      \<and> b_hash blk = ''0x'' @ toy_sha (dumps_header (b_index blk) (b_timestamp blk)
                                      (b_transactions blk) (b_proof blk) (b_previous_hash blk))
      \<and> current_transactions bc' = [])
   \<and> (\<exists>blk bc'.
      create_block toy_sha ''1700000001.0'' 7 None bc1 = Inr (blk, bc')
      \<and> chain bc' = chain bc1 @ [blk]
      \<and> b_transactions blk = current_transactions bc1
      \<and> b_index blk = b_index (last (chain bc1)) + 1
      \<and> b_proof blk = 7
      \<and> b_previous_hash blk = ''0x'' @ toy_sha (dumps_block (last (chain bc1)))
      \<and> b_hash blk = ''0x'' @ toy_sha (dumps_header (b_index blk) (b_timestamp blk)
                                      (b_transactions blk) (b_proof blk) (b_previous_hash blk))
      \<and> current_transactions bc' = [])"
proof -
  have v: "valid_proof toy_sha (b_proof (last (chain bc1))) 0" by (rule toy_valid)
  from mine_block_appends_pool [OF reachable_bc1 _ v, of "''1700000001.0''" 7]
  show ?thesis by simp
qed

lemma dumps_block_not_header:
  "dumps_block b \<noteq>
     dumps_header (b_index b) (b_timestamp b) (b_transactions b) (b_proof b) (b_previous_hash b)"
proof -
  have "length (dumps_block b) \<noteq>
          length (dumps_header (b_index b) (b_timestamp b) (b_transactions b) (b_proof b)
                    (b_previous_hash b))"
    by (simp add: dumps_block_def dumps_header_def header_members_def json_object_def)
  then show ?thesis by auto
qed

text \<open>
  The two digests the chain keeps for a block are taken of two texts that always differ: the
  link to a block equals the hash stored on it only where the digest collides on them.
\<close>

lemma link_is_stored_hash_iff_collision:
  assumes "reachable sha bc" and "Suc i < length (chain bc)"
  shows "(b_previous_hash (chain bc ! Suc i) = b_hash (chain bc ! i)) =
           (sha (dumps_block (chain bc ! i)) =
            sha (dumps_header (b_index (chain bc ! i)) (b_timestamp (chain bc ! i))
                   (b_transactions (chain bc ! i)) (b_proof (chain bc ! i))
                   (b_previous_hash (chain bc ! i))))"
proof -
  from assms(1) have wf: "wf sha bc" by (rule reachable_wf)
  from assms(2) have "chain bc ! i \<in> set (chain bc)" by simp
  with wf have h: "hash_ok sha (chain bc ! i)" by (simp add: wf_def)
  from wf assms(2) have l: "b_previous_hash (chain bc ! Suc i) = hash sha (chain bc ! i)"
    by (simp add: wf_def linked_def)
  show ?thesis
    unfolding l using h by (simp add: hash_ok_def hash_def generate_block_hash_def)
qed

text \<open>
  C2, as the code has it. In every reachable chain, the \<^verbatim>\<open>previous_hash\<close> of each block after
  the first is the digest that the static method \<^verbatim>\<open>hash\<close> gives for the whole preceding
  block (its \<^verbatim>\<open>'hash'\<close> key included); the first block has the fixed genesis value; and the
  \<^verbatim>\<open>'hash'\<close> stored on each block is \<^verbatim>\<open>_generate_block_hash\<close> of its index, timestamp,
  transactions, proof and previous hash.
\<close>

theorem chain_linked_by_block_digest:
  assumes "reachable sha bc"
  shows "(\<forall>i. Suc i < length (chain bc) \<longrightarrow>
            b_previous_hash (chain bc ! Suc i) = hash sha (chain bc ! i))
         \<and> b_previous_hash (chain bc ! 0) = genesis_previous_hash
         \<and> (\<forall>b \<in> set (chain bc).
              b_hash b = generate_block_hash sha (b_index b) (b_timestamp b) (b_transactions b)
                           (b_proof b) (b_previous_hash b))"
proof -
  from assms have wf: "wf sha bc" by (rule reachable_wf)
  then have ne: "chain bc \<noteq> []" by (simp add: wf_def)
  then have "hd (chain bc) = chain bc ! 0" by (simp add: hd_conv_nth)
  with wf show ?thesis by (simp add: wf_def linked_def hash_ok_def)
qed

lemma bc1_eq:
  "bc1 = \<lparr>chain = chain bc0,
           current_transactions =
             [\<lparr>sender = ''Alice'', recipient = ''Bob'', amount = 5, details = ''sale'',
               tx_timestamp = ''2025-01-01T00:00:00'', transaction_id = ''0x000016'',
               gas_price = 20000000000, gas_limit = 21000, nonce = 1,
               transaction_hash = Some ''0x0000195'', block_number = None\<rparr>]\<rparr>"
  by (simp add: bc1_def add_transaction_state new_transaction_def Let_def bc0_eq e0_def
      generate_transaction_id_def hash_transaction_def toy_sha_def json_defs)

lemma bc2_eq:
  "bc2 = \<lparr>chain = chain bc0 @
             [\<lparr>b_index = 2, b_timestamp = ''1700000001.0'',
               b_transactions = current_transactions bc1,
               b_proof = 0, b_previous_hash = ''0x0000181'', b_hash = ''0x0000329''\<rparr>],
           current_transactions = []\<rparr>"
  by (simp add: bc2_def next_block_def Let_def bc1_eq bc0_eq stamp_tx_def hash_def
      generate_block_hash_def toy_sha_def json_defs genesis_previous_hash_def)

theorem chain_linked_by_block_digest_witness:
  "length (chain bc2) = 2
   \<and> b_previous_hash (chain bc2 ! 1) = hash toy_sha (chain bc2 ! 0)
   \<and> b_previous_hash (chain bc2 ! 0) = genesis_previous_hash
   \<and> b_hash (chain bc2 ! 0) =
       generate_block_hash toy_sha (b_index (chain bc2 ! 0)) (b_timestamp (chain bc2 ! 0))
         (b_transactions (chain bc2 ! 0)) (b_proof (chain bc2 ! 0))
         (b_previous_hash (chain bc2 ! 0))
   \<and> b_hash (chain bc2 ! 1) =
       generate_block_hash toy_sha (b_index (chain bc2 ! 1)) (b_timestamp (chain bc2 ! 1))
         (b_transactions (chain bc2 ! 1)) (b_proof (chain bc2 ! 1))
         (b_previous_hash (chain bc2 ! 1))"
proof -
  note t = chain_linked_by_block_digest [OF reachable_bc2]
  have len: "length (chain bc2) = 2" by (simp add: bc2_eq bc0_eq)
  from t len have link: "b_previous_hash (chain bc2 ! Suc 0) = hash toy_sha (chain bc2 ! 0)"
    by simp
  from t have gen: "b_previous_hash (chain bc2 ! 0) = genesis_previous_hash" by simp
  from len have "chain bc2 ! 0 \<in> set (chain bc2)" and "chain bc2 ! 1 \<in> set (chain bc2)"
    by simp_all
  with t have
    "b_hash (chain bc2 ! 0) =
       generate_block_hash toy_sha (b_index (chain bc2 ! 0)) (b_timestamp (chain bc2 ! 0))
         (b_transactions (chain bc2 ! 0)) (b_proof (chain bc2 ! 0))
         (b_previous_hash (chain bc2 ! 0))"
    and "b_hash (chain bc2 ! 1) =
       generate_block_hash toy_sha (b_index (chain bc2 ! 1)) (b_timestamp (chain bc2 ! 1))
         (b_transactions (chain bc2 ! 1)) (b_proof (chain bc2 ! 1))
         (b_previous_hash (chain bc2 ! 1))"
    by blast+
  with len link gen show ?thesis by simp
qed

text \<open>
  C2 as stated fails: after one \<^verbatim>\<open>mine_block\<close> on a fresh ledger, the second block's
  \<^verbatim>\<open>previous_hash\<close> is the digest of the whole genesis dict, which is not the value stored
  under the genesis block's \<^verbatim>\<open>'hash'\<close> key (the digest of five of its keys).
\<close>

theorem previous_hash_is_not_stored_hash:
  "mine_block toy_sha ''1700000001.0'' bc1
     = Some (Inr (next_block toy_sha ''1700000001.0'' 0 bc1, bc2))
   \<and> b_previous_hash (chain bc2 ! 1) = ''0x0000181''
   \<and> b_hash (chain bc2 ! 0) = ''0x0000160''
   \<and> b_previous_hash (chain bc2 ! 1) \<noteq> b_hash (chain bc2 ! 0)"
  using mine_bc1 by (simp add: bc2_eq bc0_eq)

text \<open>
  C4 as stated fails where it says that the new block's \<^verbatim>\<open>previous_hash\<close> is the hash of the
  previous last block: the block \<^verbatim>\<open>mine_block\<close> appends to a ledger with one pending transfer
  carries the digest of the whole genesis dict, not the value stored under the genesis
  block's \<^verbatim>\<open>'hash'\<close> key.
\<close>

theorem mined_block_does_not_link_to_stored_hash:
  "mine_block toy_sha ''1700000001.0'' bc1
     = Some (Inr (next_block toy_sha ''1700000001.0'' 0 bc1, bc2))
   \<and> b_previous_hash (next_block toy_sha ''1700000001.0'' 0 bc1) = ''0x0000181''
   \<and> b_hash (last (chain bc1)) = ''0x0000160''
   \<and> b_previous_hash (next_block toy_sha ''1700000001.0'' 0 bc1) \<noteq> b_hash (last (chain bc1))"
proof -
  have e: "last (chain bc2) = next_block toy_sha ''1700000001.0'' 0 bc1"
    by (simp add: bc2_def)
  have "b_previous_hash (last (chain bc2)) = ''0x0000181''"
    by (simp add: bc2_eq)
  then have "b_previous_hash (next_block toy_sha ''1700000001.0'' 0 bc1) = ''0x0000181''"
    unfolding e .
  moreover have "b_hash (last (chain bc1)) = ''0x0000160''"
    by (simp add: chain_bc1 bc0_eq)
  ultimately show ?thesis using mine_bc1 by simp
qed

section \<open>The adapter in simulated mode: proofs\<close>

lemma add_transaction_eq:
  "chain bc \<noteq> [] \<Longrightarrow>
     add_transaction sha e s r a d bc =
       (Inr (b_index (last (chain bc)) + 1),
        bc\<lparr>current_transactions := current_transactions bc @ [new_transaction sha e bc s r a d]\<rparr>)"
  by (simp add: add_transaction_def Let_def get_last_block_def)

lemma adapter_add_transaction_eq:
  assumes "chain bc \<noteq> []"
  shows "adapter_add_transaction sha e now s r a d bc =
     (case proof_of_work sha (b_proof (last (chain bc))) of
        None \<Rightarrow> None
      | Some p \<Rightarrow>
          Some (Inr (b_index (last (chain bc)) + 1),
                \<lparr>chain = chain bc @
                   [next_block sha now p
                      (bc\<lparr>current_transactions :=
                            current_transactions bc @ [new_transaction sha e bc s r a d]\<rparr>)],
                 current_transactions = []\<rparr>))"
proof -
  let ?bc = "bc\<lparr>current_transactions := current_transactions bc @ [new_transaction sha e bc s r a d]\<rparr>"
  have ne: "chain ?bc \<noteq> []" using assms by simp
  show ?thesis
  proof (cases "proof_of_work sha (b_proof (last (chain bc)))")
    case None
    then have "mine_block sha now ?bc = None"
      using ne by (simp add: mine_block_def get_last_block_def)
    with None show ?thesis
      by (simp add: adapter_add_transaction_def add_transaction_eq [OF assms])
  next
    case (Some p)
    then have "proof_of_work sha (b_proof (last (chain ?bc))) = Some p" by simp
    from mine_block_found [OF ne this, of now] Some show ?thesis
      by (simp add: adapter_add_transaction_def add_transaction_eq [OF assms])
  qed
qed

lemma issue_credits_eq:
  assumes "chain bc \<noteq> []"
  shows "issue_credits sha e now r a d bc =
     (case proof_of_work sha (b_proof (last (chain bc))) of
        None \<Rightarrow> None
      | Some p \<Rightarrow>
          Some (True,
                \<lparr>chain = chain bc @
                   [next_block sha now p
                      (bc\<lparr>current_transactions :=
                            current_transactions bc @ [new_transaction sha e bc ''system'' r a d]\<rparr>)],
                 current_transactions = []\<rparr>))"
proof -
  let ?bc = "bc\<lparr>current_transactions :=
                 current_transactions bc @ [new_transaction sha e bc ''system'' r a d]\<rparr>"
  have ne: "chain ?bc \<noteq> []" using assms by simp
  show ?thesis
  proof (cases "proof_of_work sha (b_proof (last (chain bc)))")
    case None
    then have "mine_block sha now ?bc = None"
      using ne by (simp add: mine_block_def get_last_block_def)
    with None show ?thesis
      by (simp add: issue_credits_def add_transaction_eq [OF assms])
  next
    case (Some p)
    then have "proof_of_work sha (b_proof (last (chain ?bc))) = Some p" by simp
    from mine_block_found [OF ne this, of now] Some show ?thesis
      by (simp add: issue_credits_def add_transaction_eq [OF assms])
  qed
qed

lemma adapter_reachable_inv:
  "adapter_reachable sha bc \<Longrightarrow> reachable sha bc \<and> current_transactions bc = []"
proof (induction rule: adapter_reachable.induct)
  case (a_init now)
  have "reachable sha (init_blockchain sha now)" by (rule r_init)
  moreover have "current_transactions (init_blockchain sha now) = []"
    by (simp add: init_blockchain_eq)
  ultimately show ?case by simp
next
  case (a_add bc e now s r a d res bc')
  then have rb: "reachable sha bc" by simp
  then have ne: "chain bc \<noteq> []" using reachable_wf by (auto simp: wf_def)
  let ?bc = "snd (add_transaction sha e s r a d bc)"
  from a_add.hyps(2) obtain p where
    p: "proof_of_work sha (b_proof (last (chain bc))) = Some p"
    and bc': "bc' = \<lparr>chain = chain bc @ [next_block sha now p ?bc], current_transactions = []\<rparr>"
    by (auto simp: adapter_add_transaction_eq [OF ne] add_transaction_state split: option.splits)
  have "reachable sha ?bc" using rb by (rule r_add)
  moreover have "mine_block sha now ?bc = Some (Inr (next_block sha now p ?bc, bc'))"
    unfolding bc' using mine_block_found [of ?bc sha p now] ne p
    by (simp add: add_transaction_chain)
  ultimately have "reachable sha bc'" by (rule r_mine)
  then show ?case by (simp add: bc')
next
  case (a_issue bc e now r a d ok bc')
  then have rb: "reachable sha bc" by simp
  then have ne: "chain bc \<noteq> []" using reachable_wf by (auto simp: wf_def)
  let ?bc = "snd (add_transaction sha e ''system'' r a d bc)"
  from a_issue.hyps(2) obtain p where
    p: "proof_of_work sha (b_proof (last (chain bc))) = Some p"
    and bc': "bc' = \<lparr>chain = chain bc @ [next_block sha now p ?bc], current_transactions = []\<rparr>"
    by (auto simp: issue_credits_eq [OF ne] add_transaction_state split: option.splits)
  have "reachable sha ?bc" using rb by (rule r_add)
  moreover have "mine_block sha now ?bc = Some (Inr (next_block sha now p ?bc, bc'))"
    unfolding bc' using mine_block_found [of ?bc sha p now] ne p
    by (simp add: add_transaction_chain)
  ultimately have "reachable sha bc'" by (rule r_mine)
  then show ?case by (simp add: bc')
next
  case (a_mine bc now blk bc')
  then have rb: "reachable sha bc" by simp
  then have ne: "chain bc \<noteq> []" using reachable_wf by (auto simp: wf_def)
  from rb a_mine.hyps(2) have "reachable sha bc'" by (rule r_mine)
  moreover from mine_block_result [OF ne a_mine.hyps(2)] have "current_transactions bc' = []"
    by auto
  ultimately show ?case by simp
qed

lemma single_transaction_block:
  assumes "current_transactions bc = []"
  shows "b_transactions
           (next_block sha now p
              (bc\<lparr>current_transactions :=
                    current_transactions bc @ [new_transaction sha e bc s r a d]\<rparr>)) =
           [new_transaction sha e bc s r a d]"
  by (simp add: next_block_fields assms stamp_tx_def new_transaction_stamped)

text \<open>
  C10. In simulated mode, from every state the adapter can be in, and provided the proof search
  has a candidate to find, \<^verbatim>\<open>add_transaction\<close> and \<^verbatim>\<open>issue_credits\<close> of the adapter return
  with the pool empty and the chain longer by exactly one block, whose only transaction is the
  one the call built.
\<close>

theorem adapter_calls_mine_one_transaction:
  assumes "adapter_reachable sha bc" and "0 \<le> q"
    and "valid_proof sha (b_proof (last (chain bc))) q"
  shows "\<exists>res blk bc' blk2 bc2.
           adapter_add_transaction sha e now s r a d bc = Some (Inr res, bc')
           \<and> current_transactions bc' = []
           \<and> chain bc' = chain bc @ [blk]
           \<and> b_transactions blk = [new_transaction sha e bc s r a d]
           \<and> issue_credits sha e now r a d bc = Some (True, bc2)
           \<and> current_transactions bc2 = []
           \<and> chain bc2 = chain bc @ [blk2]
           \<and> b_transactions blk2 = [new_transaction sha e bc ''system'' r a d]"
proof -
  from adapter_reachable_inv [OF assms(1)]
  have rb: "reachable sha bc" and pool: "current_transactions bc = []" by simp_all
  from rb have ne: "chain bc \<noteq> []" using reachable_wf by (auto simp: wf_def)
  from proof_of_work_returns [OF assms(2,3)]
  obtain p where p: "proof_of_work sha (b_proof (last (chain bc))) = Some p" by blast
  show ?thesis
    by (simp add: adapter_add_transaction_eq [OF ne] issue_credits_eq [OF ne] p
        single_transaction_block [OF pool])
qed

lemma adapter_reachable_bc0: "adapter_reachable toy_sha bc0"
  unfolding bc0_def by (rule a_init)

theorem adapter_calls_mine_one_transaction_witness:
  "\<exists>res blk bc' blk2 bc2.
     adapter_add_transaction toy_sha e0 ''1700000001.0'' ''Alice'' ''Bob'' 5 ''sale'' bc0
       = Some (Inr res, bc')
     \<and> current_transactions bc' = []
     \<and> chain bc' = chain bc0 @ [blk]
     \<and> b_transactions blk = [new_transaction toy_sha e0 bc0 ''Alice'' ''Bob'' 5 ''sale'']
     \<and> issue_credits toy_sha e0 ''1700000001.0'' ''Bob'' 5 ''sale'' bc0 = Some (True, bc2)
     \<and> current_transactions bc2 = []
     \<and> chain bc2 = chain bc0 @ [blk2]
     \<and> b_transactions blk2 = [new_transaction toy_sha e0 bc0 ''system'' ''Bob'' 5 ''sale'']"
  using adapter_calls_mine_one_transaction [OF adapter_reachable_bc0, of 0]
  by (simp add: toy_valid)

section \<open>Returned values and balances: proofs\<close>

lemma bc_pending_issue_eq:
  "bc_pending_issue = \<lparr>chain = chain bc0,
           current_transactions =
             [\<lparr>sender = ''system'', recipient = ''SomnathProducers'', amount = 1000,
               details = ''Initial credit allocation'',
               tx_timestamp = ''2025-01-01T00:00:00'', transaction_id = ''0x000016'',
               gas_price = 20000000000, gas_limit = 21000, nonce = 1,
               transaction_hash = Some ''0x0000233'', block_number = None\<rparr>]\<rparr>"
  by (simp add: bc_pending_issue_def add_transaction_state new_transaction_def Let_def bc0_eq
      e0_def generate_transaction_id_def hash_transaction_def toy_sha_def json_defs)

lemma bc_issued_eq:
  "bc_issued = \<lparr>chain = chain bc0 @
             [\<lparr>b_index = 2, b_timestamp = ''1700000001.0'',
               b_transactions = current_transactions bc_pending_issue,
               b_proof = 0, b_previous_hash = ''0x0000181'', b_hash = ''0x0000367''\<rparr>],
           current_transactions = []\<rparr>"
  by (simp add: bc_issued_def next_block_def Let_def bc_pending_issue_eq bc0_eq stamp_tx_def
      hash_def generate_block_hash_def toy_sha_def json_defs genesis_previous_hash_def)

lemma adapter_add_bc0:
  "adapter_add_transaction toy_sha e0 ''1700000001.0'' ''Alice'' ''Bob'' 5 ''sale'' bc0
     = Some (Inr 2, bc2)"
proof -
  have "bc0\<lparr>current_transactions :=
              current_transactions bc0 @ [new_transaction toy_sha e0 bc0 ''Alice'' ''Bob'' 5 ''sale'']\<rparr>
          = bc1"
    by (simp add: bc1_def add_transaction_state)
  then show ?thesis
    by (simp add: adapter_add_transaction_eq [OF chain_bc0_not_empty] toy_proof_of_work
        bc2_def chain_bc1) (simp add: bc0_eq)
qed

lemma issue_bc0:
  "issue_credits toy_sha e0 ''1700000001.0'' ''SomnathProducers'' 1000
     ''Initial credit allocation'' bc0 = Some (True, bc_issued)"
proof -
  have "bc0\<lparr>current_transactions :=
              current_transactions bc0
                @ [new_transaction toy_sha e0 bc0 ''system'' ''SomnathProducers'' 1000
                     ''Initial credit allocation'']\<rparr>
          = bc_pending_issue"
    by (simp add: bc_pending_issue_def add_transaction_state)
  moreover have "chain bc_pending_issue = chain bc0"
    by (simp add: bc_pending_issue_def add_transaction_chain)
  ultimately show ?thesis
    by (simp add: issue_credits_eq [OF chain_bc0_not_empty] toy_proof_of_work bc_issued_def)
qed

text \<open>
  C7, as the code has it. In simulated mode the adapter's \<^verbatim>\<open>add_transaction\<close> returns the
  index of the block that holds the new transaction: the last block's index plus one at the
  time of the call, which is the index of the block the same call mines. \<^verbatim>\<open>issue_credits\<close>
  returns \<^verbatim>\<open>True\<close>.
\<close>

theorem add_transaction_returns_block_index:
  assumes "adapter_reachable sha bc"
  shows "fst (add_transaction sha e s r a d bc) = Inr (b_index (last (chain bc)) + 1)
         \<and> (adapter_add_transaction sha e now s r a d bc = Some (res, bc') \<longrightarrow>
              res = Inr (b_index (last (chain bc)) + 1)
              \<and> res = Inr (b_index (last (chain bc')))
              \<and> b_transactions (last (chain bc')) = [new_transaction sha e bc s r a d])
         \<and> (issue_credits sha e now r a d bc = Some (ok, bc'') \<longrightarrow> ok)"
proof -
  from adapter_reachable_inv [OF assms]
  have rb: "reachable sha bc" and pool: "current_transactions bc = []" by simp_all
  from rb have wf: "wf sha bc" by (rule reachable_wf)
  then have ne: "chain bc \<noteq> []" and ix: "indexed (chain bc)" by (simp_all add: wf_def)
  have 1: "fst (add_transaction sha e s r a d bc) = Inr (b_index (last (chain bc)) + 1)"
    using ne by (rule add_transaction_result)
  have 2: "res = Inr (b_index (last (chain bc)) + 1)
           \<and> res = Inr (b_index (last (chain bc')))
           \<and> b_transactions (last (chain bc')) = [new_transaction sha e bc s r a d]"
    if "adapter_add_transaction sha e now s r a d bc = Some (res, bc')"
  proof -
    let ?bc = "bc\<lparr>current_transactions :=
                   current_transactions bc @ [new_transaction sha e bc s r a d]\<rparr>"
    from that obtain p where
      res: "res = Inr (b_index (last (chain bc)) + 1)"
      and bc': "bc' = \<lparr>chain = chain bc @ [next_block sha now p ?bc], current_transactions = []\<rparr>"
      by (auto simp: adapter_add_transaction_eq [OF ne] split: option.splits)
    have "b_index (next_block sha now p ?bc) = b_index (last (chain bc)) + 1"
      by (simp add: next_block_fields(1) last_index [OF ix ne])
    moreover have "b_transactions (next_block sha now p ?bc) = [new_transaction sha e bc s r a d]"
      using pool by (rule single_transaction_block)
    ultimately show ?thesis by (simp add: res bc')
  qed
  have 3: "ok" if "issue_credits sha e now r a d bc = Some (ok, bc'')"
    using that by (auto simp: issue_credits_eq [OF ne] split: option.splits)
  from 1 2 3 show ?thesis by blast
qed

theorem add_transaction_returns_block_index_witness:
  "fst (add_transaction toy_sha e0 ''Alice'' ''Bob'' 5 ''sale'' bc0) = Inr 2
   \<and> adapter_add_transaction toy_sha e0 ''1700000001.0'' ''Alice'' ''Bob'' 5 ''sale'' bc0
       = Some (Inr 2, bc2)
   \<and> b_index (last (chain bc2)) = 2
   \<and> b_transactions (last (chain bc2)) = [new_transaction toy_sha e0 bc0 ''Alice'' ''Bob'' 5 ''sale'']
   \<and> issue_credits toy_sha e0 ''1700000001.0'' ''SomnathProducers'' 1000
        ''Initial credit allocation'' bc0 = Some (True, bc_issued)"
  using add_transaction_returns_block_index [OF adapter_reachable_bc0,
      of e0 "''Alice''" "''Bob''" 5 "''sale''" "''1700000001.0''" "Inr 2" bc2]
    adapter_add_bc0 issue_bc0
  by (simp add: bc0_eq)

text \<open>
  C7 as stated fails: on a fresh adapter a transfer returns 2, the index of the block just
  mined, while the identifier of the transaction in that block is a hexadecimal string; an
  issuance returns \<^verbatim>\<open>True\<close>.
\<close>

theorem returned_value_is_not_transaction_id:
  "adapter_add_transaction toy_sha e0 ''1700000001.0'' ''Alice'' ''Bob'' 5 ''sale'' bc0
     = Some (Inr 2, bc2)
   \<and> map transaction_id (b_transactions (last (chain bc2))) = [''0x000016'']
   \<and> PyInt 2 \<noteq> PyStr ''0x000016''
   \<and> issue_credits toy_sha e0 ''1700000001.0'' ''SomnathProducers'' 1000
        ''Initial credit allocation'' bc0 = Some (True, bc_issued)
   \<and> map transaction_id (b_transactions (last (chain bc_issued))) = [''0x000016'']
   \<and> PyBool True \<noteq> PyStr ''0x000016''"
  using adapter_add_bc0 issue_bc0
  by (simp add: bc2_eq bc1_eq bc_issued_eq bc_pending_issue_eq)

text \<open>
  C1, as the code has it. \<^verbatim>\<open>get_balance\<close> is the sum of the amounts of the committed
  transactions received minus the sum of those sent, whatever the account's name: nothing is
  left out for "system", and the difference is returned as it is, so it is non-negative
  exactly when the debits do not exceed the credits.
\<close>

theorem get_balance_is_credits_minus_debits:
  "get_balance bc a = credits a (committed bc) - debits a (committed bc)
   \<and> (0 \<le> get_balance bc a) = (debits a (committed bc) \<le> credits a (committed bc))"
  by (simp add: get_balance_def committed_def balance_blocks_sum)

theorem get_balance_is_credits_minus_debits_witness:
  "get_balance bc_issued ''SomnathProducers'' = 1000
   \<and> credits ''SomnathProducers'' (committed bc_issued) = 1000
   \<and> debits ''SomnathProducers'' (committed bc_issued) = 0"
  using get_balance_is_credits_minus_debits [of bc_issued "''SomnathProducers''"]
  by (simp add: committed_def credits_def debits_def bc_issued_eq bc_pending_issue_eq bc0_eq)

text \<open>
  C1 as stated fails: after the issuance of 1000 credits that \<^verbatim>\<open>setup_initial_users\<close> makes,
  the balance of "system" is - 1000; and after a transfer of 5 from an account that holds
  nothing, which the ledger accepts, the balance of that account is - 5.
\<close>

theorem balance_can_be_negative:
  "issue_credits toy_sha e0 ''1700000001.0'' ''SomnathProducers'' 1000
     ''Initial credit allocation'' bc0 = Some (True, bc_issued)
   \<and> get_balance bc_issued ''system'' = - 1000
   \<and> get_balance bc_issued ''system'' < 0
   \<and> adapter_add_transaction toy_sha e0 ''1700000001.0'' ''Alice'' ''Bob'' 5 ''sale'' bc0
       = Some (Inr 2, bc2)
   \<and> get_balance bc2 ''Alice'' = - 5"
  using issue_bc0 adapter_add_bc0
  by (simp add: get_balance_def bc_issued_eq bc_pending_issue_eq bc2_eq bc1_eq bc0_eq)

section \<open>The routes: proofs\<close>

lemma purchase_by_adapter:
  assumes "chain bc \<noteq> []"
  shows "adapter_add_transaction toy_sha e0 now ''SomnathProducers'' ''Ammonia Factory'' amt
           ''Credit purchase'' bc
         = Some (Inr (b_index (last (chain bc)) + 1), purchase_ledger now amt bc)"
  by (simp add: adapter_add_transaction_eq [OF assms] toy_proof_of_work purchase_ledger_def
      add_transaction_state)

lemma purchase_ledger_chain: "chain (purchase_ledger now amt bc) \<noteq> []"
  by (simp add: purchase_ledger_def)

lemma purchase_ledger_pool: "current_transactions (purchase_ledger now amt bc) = []"
  by (simp add: purchase_ledger_def)

lemma balance_blocks_snoc:
  "balance_blocks a bal (bs @ [b]) = balance_txs a (balance_blocks a bal bs) (b_transactions b)"
  by (induction bs arbitrary: bal) simp_all

lemma new_transaction_fields:
  "sender (new_transaction sha e bc s r a d) = s"
  "recipient (new_transaction sha e bc s r a d) = r"
  "amount (new_transaction sha e bc s r a d) = a"
  by (simp_all add: new_transaction_def Let_def)

lemma purchase_ledger_balance:
  assumes "current_transactions bc = []"
  shows "get_balance (purchase_ledger now amt bc) a =
           get_balance bc a
           + (if a = ''Ammonia Factory'' then amt else 0)
           - (if a = ''SomnathProducers'' then amt else 0)"
proof -
  have "b_transactions
          (next_block toy_sha now 0
             (snd (add_transaction toy_sha e0 ''SomnathProducers'' ''Ammonia Factory'' amt
                     ''Credit purchase'' bc))) =
          [new_transaction toy_sha e0 bc ''SomnathProducers'' ''Ammonia Factory'' amt
             ''Credit purchase'']"
    unfolding add_transaction_state using assms by (rule single_transaction_block)
  then show ?thesis
    by (simp add: get_balance_def purchase_ledger_def balance_blocks_snoc new_transaction_fields)
qed

lemma buy_credit_quota_unchanged:
  "buy_credit sha e now sess seller amount_field app = Some (m, app') \<Longrightarrow>
     quotas app' = quotas app"
  by (auto simp: buy_credit_def guarded_def Let_def
      split: if_splits option.splits sum.splits prod.splits)

text \<open>
  C6, as the code has it. When a quota is stored for the buying account and the requested
  amount exceeds that stored value, \<^verbatim>\<open>buy_credit\<close> answers that the quota is exceeded and
  changes nothing: no transaction is built, the ledger and \<^verbatim>\<open>APP_DATA\<close> stay as they were.
  The quota is a ceiling on each request: no call of \<^verbatim>\<open>buy_credit\<close>, whatever it answers,
  changes the quota table, so nothing is used up.
\<close>

theorem buy_credit_rejects_over_quota:
  assumes "logged_in sess \<noteq> None" and "s_role sess = Some ''Factory''"
    and "quotas app (username sess) = Some q" and "q < amt"
  shows "buy_credit sha e now sess seller (Some amt) app = Some (QuotaExceeded q, app)
         \<and> (buy_credit sha' e' now' sess' seller' amount_field app = Some (m, app')
              \<longrightarrow> quotas app' = quotas app)"
proof -
  have "buy_credit sha e now sess seller (Some amt) app = Some (QuotaExceeded q, app)"
    using assms by (simp add: buy_credit_def guarded_def Let_def)
  moreover have "quotas app' = quotas app"
    if "buy_credit sha' e' now' sess' seller' amount_field app = Some (m, app')"
    using that by (rule buy_credit_quota_unchanged)
  ultimately show ?thesis by blast
qed

lemma set_quota_app0:
  "set_factory_quota government_session ''Ammonia Factory'' 50 app0
     = Some (QuotaSet 50, app_quota)"
  by (simp add: set_factory_quota_def guarded_def government_session_def app_quota_def app0_def)

lemma balance_producer: "get_balance bc_issued ''SomnathProducers'' = 1000"
  by (simp add: get_balance_def bc_issued_eq bc_pending_issue_eq bc0_eq)

lemma balance_factory: "get_balance bc_issued ''Ammonia Factory'' = 0"
  by (simp add: get_balance_def bc_issued_eq bc_pending_issue_eq bc0_eq)

lemma chain_bc_issued_not_empty: "chain bc_issued \<noteq> []"
  by (simp add: bc_issued_eq)

lemma pool_bc_issued: "current_transactions bc_issued = []"
  by (simp add: bc_issued_def)

lemma buy_30_first:
  "buy_credit toy_sha e0 ''1700000002.0'' factory_session ''SomnathProducers'' (Some 30)
     app_quota = Some (Purchased 30, app_quota\<lparr>ledger := bc_bought_30\<rparr>)"
  using balance_producer purchase_by_adapter [OF chain_bc_issued_not_empty]
  by (simp add: buy_credit_def guarded_def Let_def factory_session_def app_quota_def app0_def
      bc_bought_30_def)

lemma balances_bought_30:
  "get_balance bc_bought_30 ''SomnathProducers'' = 970"
  "get_balance bc_bought_30 ''Ammonia Factory'' = 30"
  by (simp_all add: bc_bought_30_def purchase_ledger_balance [OF pool_bc_issued]
      balance_producer balance_factory)

lemma buy_30_second:
  "buy_credit toy_sha e0 ''1700000003.0'' factory_session ''SomnathProducers'' (Some 30)
     (app_quota\<lparr>ledger := bc_bought_30\<rparr>)
   = Some (Purchased 30, app_quota\<lparr>ledger := bc_bought_60\<rparr>)"
proof -
  have ne: "chain bc_bought_30 \<noteq> []"
    unfolding bc_bought_30_def by (rule purchase_ledger_chain)
  show ?thesis
    using balances_bought_30 purchase_by_adapter [OF ne]
    by (simp add: buy_credit_def guarded_def Let_def factory_session_def app_quota_def app0_def
        bc_bought_60_def)
qed

lemma balances_bought_60: "get_balance bc_bought_60 ''Ammonia Factory'' = 60"
proof -
  have "current_transactions bc_bought_30 = []"
    unfolding bc_bought_30_def by (rule purchase_ledger_pool)
  then show ?thesis
    by (simp add: bc_bought_60_def purchase_ledger_balance balances_bought_30)
qed

theorem buy_credit_rejects_over_quota_witness:
  "set_factory_quota government_session ''Ammonia Factory'' 50 app0
     = Some (QuotaSet 50, app_quota)
   \<and> buy_credit toy_sha e0 ''1700000002.0'' factory_session ''SomnathProducers'' (Some 60)
       app_quota = Some (QuotaExceeded 50, app_quota)
   \<and> buy_credit toy_sha e0 ''1700000002.0'' factory_session ''SomnathProducers'' (Some 30)
       app_quota = Some (Purchased 30, app_quota\<lparr>ledger := bc_bought_30\<rparr>)
   \<and> quotas (app_quota\<lparr>ledger := bc_bought_30\<rparr>) = quotas app_quota"
proof -
  have a: "logged_in factory_session \<noteq> None" and b: "s_role factory_session = Some ''Factory''"
    and c: "quotas app_quota (username factory_session) = Some 50" and d: "(50::int) < 60"
    by (simp_all add: factory_session_def app_quota_def)
  note t = buy_credit_rejects_over_quota [OF a b c d,
      where sha = toy_sha and e = e0 and now = "''1700000002.0''"
        and seller = "''SomnathProducers''"
        and sha' = toy_sha and e' = e0 and now' = "''1700000002.0''"
        and sess' = factory_session and seller' = "''SomnathProducers''"
        and amount_field = "Some 30" and m = "Purchased 30"
        and app' = "app_quota\<lparr>ledger := bc_bought_30\<rparr>"]
  from t buy_30_first set_quota_app0 show ?thesis by simp
qed

text \<open>
  C6 as stated fails where it speaks of the remaining quota: under a quota of 50 the factory
  buys 30 credits and then 30 more. The second request exceeds what would remain of the quota
  (20), and it is accepted: the quota is still 50 and the factory holds 60.
\<close>

theorem second_purchase_exceeds_remaining_quota:
  "quotas app_quota ''Ammonia Factory'' = Some 50
   \<and> buy_credit toy_sha e0 ''1700000002.0'' factory_session ''SomnathProducers'' (Some 30)
       app_quota = Some (Purchased 30, app_quota\<lparr>ledger := bc_bought_30\<rparr>)
   \<and> get_balance bc_bought_30 ''Ammonia Factory'' = 30
   \<and> buy_credit toy_sha e0 ''1700000003.0'' factory_session ''SomnathProducers'' (Some 30)
       (app_quota\<lparr>ledger := bc_bought_30\<rparr>)
       = Some (Purchased 30, app_quota\<lparr>ledger := bc_bought_60\<rparr>)
   \<and> quotas (app_quota\<lparr>ledger := bc_bought_60\<rparr>) ''Ammonia Factory'' = Some 50
   \<and> get_balance bc_bought_60 ''Ammonia Factory'' = 60"
  using buy_30_first buy_30_second balances_bought_30 balances_bought_60
  by (simp add: app_quota_def)

text \<open>
  C3, as the code has it. The balance is tested by \<^verbatim>\<open>buy_credit\<close> and nowhere else. A request
  to \<^verbatim>\<open>buy_credit\<close> that has passed the tests that come first (a session of a factory, an
  integer amount, the buyer's quota) and asks for more than the seller's balance is answered
  with "insufficient credits", and nothing changes: no transaction is built, the ledger and
  \<^verbatim>\<open>APP_DATA\<close> stay as they were. \<^verbatim>\<open>add_transaction\<close> of the ledger, which the adapter calls,
  appends whatever it is given.
\<close>

theorem buy_credit_rejects_insufficient_balance:
  assumes "logged_in sess \<noteq> None" and "s_role sess = Some ''Factory''"
    and "quotas app (username sess) = None \<or> amt \<le> the (quotas app (username sess))"
    and "get_balance (ledger app) seller < amt"
  shows "buy_credit sha e now sess seller (Some amt) app = Some (InsufficientBalance, app)
         \<and> current_transactions (snd (add_transaction sha e' s r a d bc))
             = current_transactions bc @ [new_transaction sha e' bc s r a d]"
proof -
  have "buy_credit sha e now sess seller (Some amt) app = Some (InsufficientBalance, app)"
    using assms by (auto simp: buy_credit_def guarded_def Let_def)
  then show ?thesis by (simp add: add_transaction_pool)
qed

theorem buy_credit_rejects_insufficient_balance_witness:
  "get_balance (ledger app0) ''SomnathProducers'' = 1000
   \<and> buy_credit toy_sha e0 ''1700000002.0'' factory_session ''SomnathProducers'' (Some 10000)
       app0 = Some (InsufficientBalance, app0)
   \<and> current_transactions (snd (add_transaction toy_sha e0 ''Alice'' ''Bob'' 5 ''sale'' bc0))
       = current_transactions bc0 @ [new_transaction toy_sha e0 bc0 ''Alice'' ''Bob'' 5 ''sale'']"
proof -
  have a: "logged_in factory_session \<noteq> None" and b: "s_role factory_session = Some ''Factory''"
    and c: "quotas app0 (username factory_session) = None
            \<or> 10000 \<le> the (quotas app0 (username factory_session))"
    and d: "get_balance (ledger app0) ''SomnathProducers'' < 10000"
    using balance_producer by (simp_all add: factory_session_def app0_def)
  note t = buy_credit_rejects_insufficient_balance [OF a b c d,
      where sha = toy_sha and e = e0 and now = "''1700000002.0''" and e' = e0
        and s = "''Alice''" and r = "''Bob''" and a = 5 and d = "''sale''" and bc = bc0]
  have "get_balance (ledger app0) ''SomnathProducers'' = 1000"
    using balance_producer by (simp add: app0_def)
  with t show ?thesis by simp
qed

text \<open>
  C3 as stated fails for a transfer that reaches the ledger by another way than
  \<^verbatim>\<open>buy_credit\<close>: on a fresh adapter, where nobody holds anything, a transfer of 5 credits is
  pooled by \<^verbatim>\<open>add_transaction\<close> and mined by the adapter; the sender's balance becomes - 5.
\<close>

theorem ledger_accepts_overdraft:
  "get_balance bc0 ''Alice'' = 0
   \<and> current_transactions bc0 = []
   \<and> fst (add_transaction toy_sha e0 ''Alice'' ''Bob'' 5 ''sale'' bc0) = Inr 2
   \<and> length (current_transactions (snd (add_transaction toy_sha e0 ''Alice'' ''Bob'' 5 ''sale'' bc0)))
       = 1
   \<and> adapter_add_transaction toy_sha e0 ''1700000001.0'' ''Alice'' ''Bob'' 5 ''sale'' bc0
       = Some (Inr 2, bc2)
   \<and> length (chain bc0) = 1
   \<and> length (chain bc2) = 2
   \<and> get_balance bc2 ''Alice'' = - 5
   \<and> get_balance bc2 ''Bob'' = 5"
proof -
  have 1: "get_balance bc0 ''Alice'' = 0 \<and> current_transactions bc0 = []
           \<and> length (chain bc0) = 1"
    by (simp add: get_balance_def bc0_eq)
  have 2: "fst (add_transaction toy_sha e0 ''Alice'' ''Bob'' 5 ''sale'' bc0) = Inr 2"
    by (simp add: add_transaction_result [OF chain_bc0_not_empty]) (simp add: bc0_eq)
  have 3: "length (current_transactions
             (snd (add_transaction toy_sha e0 ''Alice'' ''Bob'' 5 ''sale'' bc0))) = 1"
    using 1 by (simp add: add_transaction_pool)
  have 4: "length (chain bc2) = 2 \<and> get_balance bc2 ''Alice'' = - 5
           \<and> get_balance bc2 ''Bob'' = 5"
    by (simp add: get_balance_def bc2_eq bc1_eq bc0_eq)
  from 1 2 3 4 adapter_add_bc0 show ?thesis by simp
qed

lemma freeze_app0:
  "freeze_account government_session ''Ammonia Factory'' app0
     = Some (FreezeToggled True, app_frozen)"
  by (simp add: freeze_account_def guarded_def government_session_def app_frozen_def app0_def
      initial_users_def)

lemma buy_credit_ignores_users:
  "buy_credit sha e now sess seller amt (app\<lparr>users := u\<rparr>) =
     map_option (\<lambda>(m, a). (m, a\<lparr>users := u\<rparr>)) (buy_credit sha e now sess seller amt app)"
  by (simp add: buy_credit_def guarded_def Let_def split: option.splits sum.splits)

lemma adapter_add_bc_issued:
  "adapter_add_transaction toy_sha e0 ''1700000002.0'' ''SomnathProducers'' ''Ammonia Factory'' 10
     ''Credit purchase'' bc_issued = Some (Inr 3, bc_purchased)"
proof -
  have "bc_issued\<lparr>current_transactions :=
          current_transactions bc_issued
            @ [new_transaction toy_sha e0 bc_issued ''SomnathProducers'' ''Ammonia Factory'' 10
                 ''Credit purchase'']\<rparr> = bc_pending_purchase"
    by (simp add: bc_pending_purchase_def add_transaction_state)
  moreover have "chain bc_pending_purchase = chain bc_issued"
    by (simp add: bc_pending_purchase_def add_transaction_chain)
  moreover have "b_index (last (chain bc_issued)) = 2"
    by (simp add: bc_issued_eq)
  ultimately show ?thesis
    by (simp add: adapter_add_transaction_eq [OF chain_bc_issued_not_empty] toy_proof_of_work
        bc_purchased_def)
qed

lemma balance_after_purchase:
  "get_balance bc_purchased a =
     balance_txs a (get_balance bc_issued a)
       [new_transaction toy_sha e0 bc_issued ''SomnathProducers'' ''Ammonia Factory'' 10
          ''Credit purchase'']"
proof -
  have "b_transactions (next_block toy_sha ''1700000002.0'' 0 bc_pending_purchase) =
          [new_transaction toy_sha e0 bc_issued ''SomnathProducers'' ''Ammonia Factory'' 10
             ''Credit purchase'']"
    unfolding bc_pending_purchase_def add_transaction_state
    using pool_bc_issued by (rule single_transaction_block)
  then show ?thesis
    by (simp add: get_balance_def bc_purchased_def bc_pending_purchase_def add_transaction_chain
        balance_blocks_snoc)
qed

lemma buy_app0:
  "buy_credit toy_sha e0 ''1700000002.0'' factory_session ''SomnathProducers'' (Some 10) app0
     = Some (Purchased 10, app0\<lparr>ledger := bc_purchased\<rparr>)"
  using balance_producer adapter_add_bc_issued
  by (simp add: buy_credit_def guarded_def Let_def factory_session_def app0_def)

text \<open>
  C5: what the code does. The government freezes the factory's account; the factory then buys
  10 credits, and the purchase goes through as if nothing had happened: the block is mined
  and the balances move. The same when the seller is the frozen party. The producer's route
  \<^verbatim>\<open>issue_credit\<close>, by contrast, refuses a frozen account; the adapter's own
  \<^verbatim>\<open>freeze_account\<close> does nothing in simulated mode.
\<close>

theorem frozen_party_still_trades:
  "freeze_account government_session ''Ammonia Factory'' app0
     = Some (FreezeToggled True, app_frozen)
   \<and> map_option frozen (users app_frozen ''Ammonia Factory'') = Some True
   \<and> buy_credit toy_sha e0 ''1700000002.0'' factory_session ''SomnathProducers'' (Some 10)
       app_frozen = Some (Purchased 10, app_frozen\<lparr>ledger := bc_purchased\<rparr>)
   \<and> freeze_account government_session ''SomnathProducers'' app0
       = Some (FreezeToggled True, app_seller_frozen)
   \<and> buy_credit toy_sha e0 ''1700000002.0'' factory_session ''SomnathProducers'' (Some 10)
       app_seller_frozen = Some (Purchased 10, app_seller_frozen\<lparr>ledger := bc_purchased\<rparr>)
   \<and> get_balance bc_purchased ''Ammonia Factory'' = 10
   \<and> get_balance bc_purchased ''SomnathProducers'' = 990
   \<and> issue_credit ''2025-01-01 00:00:00'' producer_session (Amount 10) app_seller_frozen
       = Some (AccountFrozen, app_seller_frozen)
   \<and> adapter_freeze_account ''Ammonia Factory'' True bc_issued = (False, bc_issued)"
proof -
  have 1: "freeze_account government_session ''Ammonia Factory'' app0
             = Some (FreezeToggled True, app_frozen)"
    by (rule freeze_app0)
  have 2: "map_option frozen (users app_frozen ''Ammonia Factory'') = Some True"
    by (simp add: app_frozen_def)
  have 3: "buy_credit toy_sha e0 ''1700000002.0'' factory_session ''SomnathProducers'' (Some 10)
             app_frozen = Some (Purchased 10, app_frozen\<lparr>ledger := bc_purchased\<rparr>)"
    unfolding app_frozen_def by (simp add: buy_credit_ignores_users buy_app0)
  have 4: "freeze_account government_session ''SomnathProducers'' app0
             = Some (FreezeToggled True, app_seller_frozen)"
    by (simp add: freeze_account_def guarded_def government_session_def app_seller_frozen_def
        app0_def initial_users_def)
  have 5: "buy_credit toy_sha e0 ''1700000002.0'' factory_session ''SomnathProducers'' (Some 10)
             app_seller_frozen = Some (Purchased 10, app_seller_frozen\<lparr>ledger := bc_purchased\<rparr>)"
    unfolding app_seller_frozen_def by (simp add: buy_credit_ignores_users buy_app0)
  have "get_balance bc_issued ''Ammonia Factory'' = 0"
    by (simp add: get_balance_def bc_issued_eq bc_pending_issue_eq bc0_eq)
  then have 6: "get_balance bc_purchased ''Ammonia Factory'' = 10"
    by (simp add: balance_after_purchase new_transaction_fields)
  have 7: "get_balance bc_purchased ''SomnathProducers'' = 990"
    by (simp add: balance_after_purchase new_transaction_fields balance_producer)
  have 8: "issue_credit ''2025-01-01 00:00:00'' producer_session (Amount 10) app_seller_frozen
             = Some (AccountFrozen, app_seller_frozen)"
    by (simp add: issue_credit_def guarded_def producer_session_def app_seller_frozen_def)
  have 9: "adapter_freeze_account ''Ammonia Factory'' True bc_issued = (False, bc_issued)"
    by (simp add: adapter_freeze_account_def)
  from 1 2 3 4 5 6 7 8 9 show ?thesis by blast
qed

section \<open>History: proofs\<close>

lemma scan_txs_take:
  assumes "int (length acc) < limit"
  shows "scan_txs sha a limit n b acc txs =
           (acc @ take (nat limit - length acc)
                    (map (tx_with_context sha n b) (filter (involves a) txs)),
            nat limit - length acc
              \<le> length (map (tx_with_context sha n b) (filter (involves a) txs)))"
  using assms
proof (induction txs arbitrary: acc)
  case Nil
  then show ?case by simp
next
  case (Cons tx txs)
  show ?case
  proof (cases "involves a tx")
    case False
    with Cons show ?thesis by simp
  next
    case True
    show ?thesis
    proof (cases "limit \<le> int (length acc) + 1")
      case full: True
      with Cons.prems have "nat limit - length acc = Suc 0" by linarith
      with True full show ?thesis by simp
    next
      case more: False
      then have lt: "int (length (acc @ [tx_with_context sha n b tx])) < limit" by simp
      from more Cons.prems have "0 < nat limit - length acc" by linarith
      then obtain k where k: "nat limit - length acc = Suc k"
        by (cases "nat limit - length acc") simp_all
      then have k': "nat limit - Suc (length acc) = k" by simp
      from Cons.IH [OF lt] True more k k' show ?thesis by simp
    qed
  qed
qed

lemma scan_blocks_take:
  assumes "int (length acc) < limit"
  shows "scan_blocks sha a limit n acc bs =
           acc @ take (nat limit - length acc)
                   (concat (map (\<lambda>b. map (tx_with_context sha n b)
                                        (filter (involves a) (rev (b_transactions b)))) bs))"
  using assms
proof (induction bs arbitrary: acc)
  case Nil
  then show ?case by simp
next
  case (Cons b bs)
  let ?v = "map (tx_with_context sha n b) (filter (involves a) (rev (b_transactions b)))"
  let ?k = "nat limit - length acc"
  note step = scan_txs_take [OF Cons.prems, of sha a n b "rev (b_transactions b)"]
  show ?case
  proof (cases "?k \<le> length ?v")
    case True
    with step show ?thesis by simp
  next
    case False
    then have short: "length ?v < ?k" by simp
    then have lt: "int (length (acc @ ?v)) < limit" using Cons.prems by simp
    have "nat limit - length (acc @ ?v) = ?k - length ?v" by simp
    with Cons.IH [OF lt] step short show ?thesis by simp
  qed
qed

lemma rev_committed_views:
  "map (\<lambda>(b, tx). F b tx)
     (filter (\<lambda>(b, tx). P tx) (rev (concat (map (\<lambda>b. map (Pair b) (b_transactions b)) bs))))
   = concat (map (\<lambda>b. map (F b) (filter P (rev (b_transactions b)))) (rev bs))"
proof (induction bs)
  case Nil
  show ?case by simp
next
  case (Cons x bs)
  have "map (\<lambda>(b, tx). F b tx) (filter (\<lambda>(b, tx). P tx) (rev (map (Pair x) (b_transactions x))))
          = map (F x) (filter P (rev (b_transactions x)))"
    by (simp add: rev_map filter_map comp_def)
  with Cons show ?case by simp
qed

text \<open>
  C8, as the code has it. For every account and every limit of at least 1,
  \<^verbatim>\<open>get_user_transactions\<close> returns the first \<open>limit\<close> of the committed transactions that
  involve the account, newest first (blocks from the last to the first, each block's
  transactions from the last to the first); the result is no longer than the limit. The
  pending pool is not read.
\<close>

theorem get_user_transactions_newest_committed_first:
  assumes "1 \<le> limit"
  shows "get_user_transactions sha bc a limit =
           take (nat limit)
             (map (\<lambda>(b, tx). tx_with_context sha (length (chain bc)) b tx)
                (filter (\<lambda>(b, tx). involves a tx) (rev (committed_pairs bc))))
         \<and> int (length (get_user_transactions sha bc a limit)) \<le> limit"
proof -
  have lt: "int (length ([] :: tx_view list)) < limit" using assms by simp
  have eq: "get_user_transactions sha bc a limit =
           take (nat limit)
             (map (\<lambda>(b, tx). tx_with_context sha (length (chain bc)) b tx)
                (filter (\<lambda>(b, tx). involves a tx) (rev (committed_pairs bc))))"
    unfolding get_user_transactions_def committed_pairs_def
    by (simp add: scan_blocks_take [OF lt] rev_committed_views)
  have "length (get_user_transactions sha bc a limit) \<le> nat limit"
    unfolding eq by simp
  then have "int (length (get_user_transactions sha bc a limit)) \<le> limit"
    using assms by linarith
  with eq show ?thesis by simp
qed

theorem get_user_transactions_witness:
  "get_user_transactions toy_sha bc2 ''Alice'' 25 =
     [\<lparr>v_sender = ''Alice'', v_recipient = ''Bob'', v_amount = 5, v_details = ''sale'',
       v_transaction_hash = ''0x0000195'', v_block_number = 2, v_block_index = 2,
       v_timestamp = ''2025-01-01T00:00:00'', v_gas_used = 21000,
       v_gas_price = 20000000000, v_status = ''confirmed'', v_confirmations = 1\<rparr>]
   \<and> int (length (get_user_transactions toy_sha bc2 ''Alice'' 25)) \<le> 25"
  using get_user_transactions_newest_committed_first [of 25 toy_sha bc2 "''Alice''"]
  by (simp add: committed_pairs_def involves_def tx_with_context_def bc2_eq bc1_eq bc0_eq)

text \<open>
  C8 as stated fails: a transfer that is still in the pending pool involves the account, and
  the history does not show it.
\<close>

theorem pending_transfer_is_not_in_history:
  "filter (involves ''Alice'') (current_transactions bc1) = current_transactions bc1
   \<and> length (current_transactions bc1) = 1
   \<and> get_user_transactions toy_sha bc1 ''Alice'' 25 = []"
  by (simp add: get_user_transactions_def involves_def bc1_eq bc0_eq)

end
